theory Spec2Isabelle
  imports Main "HOL-Library.Sublist" "HOL-Library.Char_ord"
begin

section \<open>Data model of \<^verbatim>\<open>main.go\<close>\<close>

text \<open>
  Go strings are byte sequences, so they are modelled as \<^typ>\<open>string\<close> (a list of
  8-bit characters).  A Go \<^verbatim>\<open>error\<close> created by \<^verbatim>\<open>fmt.Errorf\<close> is shown by
  \<^verbatim>\<open>%v\<close> as its message, so an error value is its message; the \<^verbatim>\<open>nil\<close> error
  is \<^term>\<open>None\<close>.
\<close>

type_synonym error = string

record Config =
  GeminiKey :: string
  GroqKey :: string
  MaxRetries :: int

record Response =
  Source :: string
  Content :: string

text \<open>The Groq request body; the fields of \<^verbatim>\<open>Message\<close> are \<^verbatim>\<open>Role\<close> and \<^verbatim>\<open>Content\<close>.\<close>

record Message =
  Role :: string
  MessageContent :: string

record GroqRequest =
  Model :: string
  Messages :: "Message list"

text \<open>
  What the \<^verbatim>\<open>genai\<close> library hands back.  A \<^verbatim>\<open>Part\<close> is an interface value:
  \<open>Text\<close> is \<^verbatim>\<open>genai.Text\<close>, \<open>Blob\<close> stands for every other implementation.
  A candidate holds a pointer to its content, which may be \<^verbatim>\<open>nil\<close> (\<^term>\<open>None\<close>);
  a content is its slice of parts.
\<close>

datatype Part = Text string | Blob

type_synonym Candidate = "Part list option"

text \<open>
  The remote services are outside the program.  What a service does when it is called
  is data of the model: \<open>genai_remote\<close> says how \<^verbatim>\<open>genai.NewClient\<close> and
  \<^verbatim>\<open>GenerateContent\<close> end, \<open>groq_remote\<close> how the steps of the HTTP exchange end.
\<close>

datatype genai_remote =
    NewClientFails error
  | GenerateFails error
  | Generated "Candidate list"

datatype groq_body = Undecodable error | Decoded "string list"

datatype groq_remote =
    MarshalFails error
  | NewRequestFails error
  | DoFails error
  | Replied int groq_body

text \<open>The three calls of one attempt of the retry loop, as the services answer them.\<close>

record remote =
  gemini :: genai_remote
  groq :: groq_remote
  judge :: genai_remote

text \<open>
  Effects are recorded as a trace: the generation requests sent (API key, model, prompt),
  the HTTP posts sent (URL, authorization header, body), the lines given to
  \<^verbatim>\<open>log.Printf\<close> and the text printed on standard output.
\<close>

datatype event =
    GenerateContent string string string
  | HttpPost string string GroqRequest
  | LogPrintf string
  | Printf string

text \<open>A Go run-time panic ends the process; a function either panics or returns.\<close>

datatype panic = IndexOutOfRange | NilDereference | InterfaceConversion

datatype 'a outcome = Panic panic | Return 'a

section \<open>Formatting verbs\<close>

function digits :: "nat \<Rightarrow> string" where
  "digits n = (if n < 10 then [char_of (48 + n)] else digits (n div 10) @ [char_of (48 + n mod 10)])"
  by pat_completeness auto
termination
  by (relation "measure (\<lambda>n. n)") auto

declare digits.simps [simp del]

text \<open>The verb \<^verbatim>\<open>%d\<close>.\<close>

definition fmt_d :: "int \<Rightarrow> string" where
  "fmt_d i = (if i < 0 then CHR ''-'' # digits (nat (- i)) else digits (nat i))"

text \<open>The verb \<^verbatim>\<open>%v\<close> on an error that may be \<^verbatim>\<open>nil\<close>.\<close>

definition fmt_v :: "error option \<Rightarrow> string" where
  "fmt_v e = (case e of None \<Rightarrow> ''<nil>'' | Some m \<Rightarrow> m)"

section \<open>\<^verbatim>\<open>strings.TrimSpace\<close>, \<^verbatim>\<open>strings.ToLower\<close>, \<^verbatim>\<open>strings.ReplaceAll\<close>\<close>

text \<open>
  \<^verbatim>\<open>TrimSpace\<close> removes the leading and the trailing runes for which
  \<^verbatim>\<open>unicode.IsSpace\<close> holds.  These are six ASCII characters and the runes U+0085, U+00A0,
  U+1680, U+2000 to U+200A, U+2028, U+2029, U+202F, U+205F and U+3000, listed here in
  their UTF-8 encodings.
\<close>

definition space_runes :: "string list" where
  "space_runes =
     [[CHR 0x09], [CHR 0x0A], [CHR 0x0B], [CHR 0x0C], [CHR 0x0D], [CHR 0x20],
      [CHR 0xC2, CHR 0x85], [CHR 0xC2, CHR 0xA0], [CHR 0xE1, CHR 0x9A, CHR 0x80],
      [CHR 0xE2, CHR 0x80, CHR 0x80], [CHR 0xE2, CHR 0x80, CHR 0x81],
      [CHR 0xE2, CHR 0x80, CHR 0x82], [CHR 0xE2, CHR 0x80, CHR 0x83],
      [CHR 0xE2, CHR 0x80, CHR 0x84], [CHR 0xE2, CHR 0x80, CHR 0x85],
      [CHR 0xE2, CHR 0x80, CHR 0x86], [CHR 0xE2, CHR 0x80, CHR 0x87],
      [CHR 0xE2, CHR 0x80, CHR 0x88], [CHR 0xE2, CHR 0x80, CHR 0x89],
      [CHR 0xE2, CHR 0x80, CHR 0x8A], [CHR 0xE2, CHR 0x80, CHR 0xA8],
      [CHR 0xE2, CHR 0x80, CHR 0xA9], [CHR 0xE2, CHR 0x80, CHR 0xAF],
      [CHR 0xE2, CHR 0x81, CHR 0x9F], [CHR 0xE3, CHR 0x80, CHR 0x80]]"

function TrimLeftSpace :: "string \<Rightarrow> string" where
  "TrimLeftSpace s =
     (case find (\<lambda>p. prefix p s) space_runes of
        None \<Rightarrow> s
      | Some p \<Rightarrow> TrimLeftSpace (drop (length p) s))"
  by pat_completeness auto
termination
proof (relation "measure length")
  show "wf (measure length)" by simp
next
  fix s p
  assume "find (\<lambda>p. prefix p s) space_runes = Some p"
  then have "p \<in> set space_runes" and "prefix p s"
    by (auto simp: find_Some_iff)
  then have "p \<noteq> []" and "s \<noteq> []"
    by (auto simp: space_runes_def)
  then show "(drop (length p) s, s) \<in> measure length" by simp
qed

function TrimRightSpace :: "string \<Rightarrow> string" where
  "TrimRightSpace s =
     (case find (\<lambda>p. suffix p s) space_runes of
        None \<Rightarrow> s
      | Some p \<Rightarrow> TrimRightSpace (take (length s - length p) s))"
  by pat_completeness auto
termination
proof (relation "measure length")
  show "wf (measure length)" by simp
next
  fix s p
  assume "find (\<lambda>p. suffix p s) space_runes = Some p"
  then have "p \<in> set space_runes" and "suffix p s"
    by (auto simp: find_Some_iff)
  then have "p \<noteq> []" and "s \<noteq> []"
    by (auto simp: space_runes_def)
  then show "(take (length s - length p) s, s) \<in> measure length" by simp
qed

declare TrimLeftSpace.simps [simp del] TrimRightSpace.simps [simp del]

definition TrimSpace :: "string \<Rightarrow> string" where
  "TrimSpace s = TrimRightSpace (TrimLeftSpace s)"

text \<open>
  \<^verbatim>\<open>ToLower\<close> adds \<^verbatim>\<open>'a' - 'A'\<close> to the bytes \<^verbatim>\<open>'A'\<close> to \<^verbatim>\<open>'Z'\<close>.  On a string
  with bytes from 0x80 on, Go maps every rune through the Unicode tables; the model leaves
  those bytes as they are.  No rune outside ASCII has a lower case among the letters of
  \<^verbatim>\<open>true\<close> (only U+0130 and U+212A map into ASCII, to \<^verbatim>\<open>i\<close> and \<^verbatim>\<open>k\<close>), so a
  comparison of the result with \<^verbatim>\<open>"true"\<close> is the same in both.
\<close>

definition lower_byte :: "char \<Rightarrow> char" where
  "lower_byte c =
     (if CHR ''A'' \<le> c \<and> c \<le> CHR ''Z'' then char_of (of_char c + (32::nat)) else c)"

definition ToLower :: "string \<Rightarrow> string" where
  "ToLower s = map lower_byte s"

text \<open>
  \<^verbatim>\<open>ReplaceAll(s, old, new)\<close> replaces the occurrences of \<open>old\<close>, left to right and
  without overlap.  The program calls it with a non-empty \<open>old\<close> only; for an empty
  \<open>old\<close> (Go inserts \<open>new\<close> around every rune) the model returns \<open>s\<close>.
\<close>

function ReplaceAll :: "string \<Rightarrow> string \<Rightarrow> string \<Rightarrow> string" where
  "ReplaceAll s old new =
     (if s = [] then []
      else if old \<noteq> [] \<and> prefix old s then new @ ReplaceAll (drop (length old) s) old new
      else hd s # ReplaceAll (tl s) old new)"
  by pat_completeness auto
termination
  by (relation "measure (\<lambda>(s, old, new). length s)") auto

declare ReplaceAll.simps [simp del]

section \<open>The functions of \<^verbatim>\<open>main.go\<close>\<close>

subsection \<open>\<^verbatim>\<open>formatResponse\<close>\<close>

definition formatResponse :: "string \<Rightarrow> string" where
  "formatResponse response =
     ReplaceAll (ReplaceAll response ''Option'' ''\<newline>Option'')
       ''Summary'' ''\<newline>\<newline>Summary''"

subsection \<open>The prompts\<close>

text \<open>The variable \<^verbatim>\<open>enhancedPrompt\<close> of \<^verbatim>\<open>getGeminiResponse\<close> (lines 203 to 210).\<close>

definition getGeminiResponse_enhancedPrompt :: "string \<Rightarrow> string" where
  \<open>getGeminiResponse_enhancedPrompt question =
     ''If this is a multiple choice question, please:\<newline>'' @
     ''1. Analyze each option carefully\<newline>'' @
     ''2. Provide a clear "Yes" or "No" for each option\<newline>'' @
     ''3. Explain the reasoning for each option\<newline>'' @
     ''4. At the end, summarize which options are correct\<newline>'' @
     ''\<newline>'' @
     ''Here's the question:\<newline>'' @
     question\<close>

text \<open>The variable \<^verbatim>\<open>enhancedPrompt\<close> of \<^verbatim>\<open>getGroqResponse\<close> (lines 228 to 235).\<close>

definition getGroqResponse_enhancedPrompt :: "string \<Rightarrow> string" where
  \<open>getGroqResponse_enhancedPrompt question =
     ''If this is a multiple choice question, please:\<newline>'' @
     ''1. Analyze each option carefully\<newline>'' @
     ''2. Provide a clear "Yes" or "No" for each option\<newline>'' @
     ''3. Explain the reasoning for each option\<newline>'' @
     ''4. At the end, summarize which options are correct\<newline>'' @
     ''\<newline>'' @
     ''Here's the question:\<newline>'' @
     question\<close>

text \<open>
  The variable \<^verbatim>\<open>comparisonPrompt\<close> of \<^verbatim>\<open>compareResponses\<close> (lines 293 to 300); the
  indented lines of the raw string literal start with a tab, and its first line ends with
  a space.
\<close>

definition comparisonPrompt :: "string \<Rightarrow> string \<Rightarrow> string" where
  \<open>comparisonPrompt resp1 resp2 =
     ''Compare these two responses and determine if they convey the same meaning. \<newline>'' @
     [CHR 0x09] @ ''Only respond with "true" if they are semantically equivalent, '' @
     ''or "false" if they differ significantly in meaning.\<newline>'' @
     [CHR 0x09] @ ''\<newline>'' @
     [CHR 0x09] @ ''Response 1:\<newline>'' @
     [CHR 0x09] @ resp1 @ ''\<newline>'' @
     ''\<newline>'' @
     [CHR 0x09] @ ''Response 2:\<newline>'' @
     [CHR 0x09] @ resp2\<close>

subsection \<open>\<^verbatim>\<open>getGeminiResponse\<close>\<close>

text \<open>
  The expression \<^verbatim>\<open>resp.Candidates[0].Content.Parts[0].(genai.Text)\<close> of lines 220 and
  308: two index operations, a pointer dereference and a type assertion, each of which
  panics when it fails.
\<close>

definition first_text :: "Candidate list \<Rightarrow> string outcome" where
  "first_text candidates =
     (case candidates of
        [] \<Rightarrow> Panic IndexOutOfRange
      | c # _ \<Rightarrow>
          (case c of
             None \<Rightarrow> Panic NilDereference
           | Some parts \<Rightarrow>
               (case parts of
                  [] \<Rightarrow> Panic IndexOutOfRange
                | p # _ \<Rightarrow>
                    (case p of
                       Text t \<Rightarrow> Return t
                     | Blob \<Rightarrow> Panic InterfaceConversion))))"

text \<open>
  The first argument is what the service does on this call; the context is left out (a
  cancelled context makes the call fail, which is \<open>GenerateFails\<close>).  The result is the
  requests sent and what the function returns: \<open>Inl\<close> the error, \<open>Inr\<close> the response.
\<close>

definition getGeminiResponse ::
  "genai_remote \<Rightarrow> string \<Rightarrow> string \<Rightarrow> event list \<times> (error + Response) outcome" where
  "getGeminiResponse r question apiKey =
     (case r of
        NewClientFails err \<Rightarrow> ([], Return (Inl (''failed to create Gemini client: '' @ err)))
      | GenerateFails err \<Rightarrow>
          ([GenerateContent apiKey ''gemini-pro'' (getGeminiResponse_enhancedPrompt question)],
           Return (Inl (''failed to generate Gemini response: '' @ err)))
      | Generated candidates \<Rightarrow>
          ([GenerateContent apiKey ''gemini-pro'' (getGeminiResponse_enhancedPrompt question)],
           (case first_text candidates of
              Panic p \<Rightarrow> Panic p
            | Return t \<Rightarrow> Return (Inr \<lparr>Source = ''Gemini'', Content = t\<rparr>))))"

subsection \<open>\<^verbatim>\<open>getGroqResponse\<close>\<close>

definition getGroqResponse ::
  "groq_remote \<Rightarrow> string \<Rightarrow> string \<Rightarrow> event list \<times> (error + Response)" where
  "getGroqResponse r question apiKey =
     (let url = ''https://api.groq.com/openai/v1/chat/completions'';
          reqBody = \<lparr>Model = ''llama-3.3-70b-versatile'',
                     Messages = [\<lparr>Role = ''user'',
                                   MessageContent = getGroqResponse_enhancedPrompt question\<rparr>]\<rparr>;
          sent = [HttpPost url (''Bearer '' @ apiKey) reqBody]
      in case r of
        MarshalFails err \<Rightarrow> ([], Inl (''failed to marshal request: '' @ err))
      | NewRequestFails err \<Rightarrow> ([], Inl (''failed to create request: '' @ err))
      | DoFails err \<Rightarrow> (sent, Inl (''failed to send request: '' @ err))
      | Replied status body \<Rightarrow>
          (sent,
           if status \<noteq> 200 then Inl (''API request failed with status: '' @ fmt_d status)
           else (case body of
                   Undecodable err \<Rightarrow> Inl (''failed to decode response: '' @ err)
                 | Decoded choices \<Rightarrow>
                     (case choices of
                        [] \<Rightarrow> Inl ''no response choices returned''
                      | c # _ \<Rightarrow> Inr \<lparr>Source = ''Groq'', Content = c\<rparr>))))"

subsection \<open>\<^verbatim>\<open>compareResponses\<close>\<close>

definition compareResponses ::
  "genai_remote \<Rightarrow> string \<Rightarrow> string \<Rightarrow> string \<Rightarrow> event list \<times> (error + bool) outcome" where
  "compareResponses r resp1 resp2 geminiKey =
     (case r of
        NewClientFails err \<Rightarrow>
          ([], Return (Inl (''failed to create Gemini client for comparison: '' @ err)))
      | GenerateFails err \<Rightarrow>
          ([GenerateContent geminiKey ''gemini-pro'' (comparisonPrompt resp1 resp2)],
           Return (Inl (''failed to compare responses using Gemini: '' @ err)))
      | Generated candidates \<Rightarrow>
          ([GenerateContent geminiKey ''gemini-pro'' (comparisonPrompt resp1 resp2)],
           (case first_text candidates of
              Panic p \<Rightarrow> Panic p
            | Return t \<Rightarrow> Return (Inr (ToLower (TrimSpace t) = ''true'')))))"

subsection \<open>\<^verbatim>\<open>processQuestion\<close>\<close>

text \<open>
  The variables declared before the loop (lines 140 to 142).  A \<^verbatim>\<open>*Response\<close> and an
  \<^verbatim>\<open>error\<close> may be \<^verbatim>\<open>nil\<close>.  The variable \<^verbatim>\<open>err\<close> is written and tested inside an
  attempt only, so it is not part of the state between attempts.
\<close>

record vars =
  geminiResp :: "Response option"
  groqResp :: "Response option"
  lastGeminiErr :: "error option"
  lastGroqErr :: "error option"

text \<open>
  How one run of the loop body ends: \<open>Next\<close> is \<^verbatim>\<open>continue\<close> or the end of the body,
  \<open>Done\<close> is \<^verbatim>\<open>return geminiResp.Content, nil\<close>, \<open>Crash\<close> is a panic in a callee.
\<close>

datatype step = Next vars | Done string | Crash panic

text \<open>The loop body (lines 145 to 171), for the attempt with index \<open>attempt\<close>.\<close>

definition attempt_step ::
  "Config \<Rightarrow> string \<Rightarrow> nat \<Rightarrow> remote \<Rightarrow> vars \<Rightarrow> event list \<times> step" where
  "attempt_step config question attempt r v =
     (case getGeminiResponse (gemini r) question (GeminiKey config) of
        (e1, Panic p) \<Rightarrow> (e1, Crash p)
      | (e1, Return (Inl err)) \<Rightarrow>
          (e1 @ [LogPrintf (''Attempt '' @ fmt_d (int attempt + 1) @ '': Gemini API error: '' @ err)],
           Next (v\<lparr>geminiResp := None, lastGeminiErr := Some err\<rparr>))
      | (e1, Return (Inr a)) \<Rightarrow>
          (case getGroqResponse (groq r) question (GroqKey config) of
             (e2, Inl err) \<Rightarrow>
               (e1 @ e2 @
                  [LogPrintf (''Attempt '' @ fmt_d (int attempt + 1) @ '': Groq API error: '' @ err)],
                Next (v\<lparr>geminiResp := Some a, groqResp := None, lastGroqErr := Some err\<rparr>))
           | (e2, Inr b) \<Rightarrow>
               (case compareResponses (judge r) (Content a) (Content b) (GeminiKey config) of
                  (e3, Panic p) \<Rightarrow> (e1 @ e2 @ e3, Crash p)
                | (e3, Return (Inl err)) \<Rightarrow>
                    (e1 @ e2 @ e3 @
                       [LogPrintf (''Attempt '' @ fmt_d (int attempt + 1) @
                                   '': Comparison error: '' @ err)],
                     Next (v\<lparr>geminiResp := Some a, groqResp := Some b\<rparr>))
                | (e3, Return (Inr similar)) \<Rightarrow>
                    (if similar then (e1 @ e2 @ e3, Done (Content a))
                     else
                       (e1 @ e2 @ e3 @
                          [LogPrintf (''Attempt '' @ fmt_d (int attempt + 1) @
                                      '': Responses differ, retrying...'')],
                        Next (v\<lparr>geminiResp := Some a, groqResp := Some b\<rparr>))))))"

text \<open>The code after the loop (lines 175 to 192): \<open>Inl\<close> the error, \<open>Inr\<close> the text.\<close>

definition exhausted :: "Config \<Rightarrow> vars \<Rightarrow> error + string" where
  "exhausted config v =
     (if geminiResp v = None \<and> groqResp v = None then
        Inl (''failed to get responses after '' @ fmt_d (MaxRetries config) @
             '' attempts. Gemini error: '' @ fmt_v (lastGeminiErr v) @
             '', Groq error: '' @ fmt_v (lastGroqErr v))
      else
        (let geminiContent =
               (case geminiResp v of
                  None \<Rightarrow> ''Error getting response''
                | Some a \<Rightarrow> formatResponse (Content a));
             groqContent =
               (case groqResp v of
                  None \<Rightarrow> ''Error getting response''
                | Some b \<Rightarrow> formatResponse (Content b))
         in Inr (''Responses after '' @ fmt_d (MaxRetries config) @
                 '' attempts:\<newline>\<newline>Gemini Response:\<newline>'' @ geminiContent @
                 ''\<newline>\<newline>Groq Response:\<newline>'' @ groqContent)))"

text \<open>
  The loop \<^verbatim>\<open>for attempt := 0; attempt < config.MaxRetries; attempt++\<close>, entered at
  \<open>attempt\<close> with the variables \<open>v\<close>, followed by the code after it.  The services'
  answers are given per attempt by \<open>env\<close>.  The counter stays below \<open>MaxRetries\<close>, which
  is a machine integer, so it does not wrap.
\<close>

function retry_loop ::
  "Config \<Rightarrow> string \<Rightarrow> (nat \<Rightarrow> remote) \<Rightarrow> nat \<Rightarrow> vars \<Rightarrow>
     event list \<times> (error + string) outcome" where
  "retry_loop config question env attempt v =
     (if int attempt < MaxRetries config then
        (case attempt_step config question attempt (env attempt) v of
           (evs, Crash p) \<Rightarrow> (evs, Panic p)
         | (evs, Done content) \<Rightarrow> (evs, Return (Inr content))
         | (evs, Next v') \<Rightarrow>
             (case retry_loop config question env (Suc attempt) v' of
                (evs', res) \<Rightarrow> (evs @ evs', res)))
      else ([], Return (exhausted config v)))"
  by pat_completeness auto
termination
  by (relation "measure (\<lambda>(config, question, env, attempt, v). nat (MaxRetries config - int attempt))")
    auto

declare retry_loop.simps [simp del]

text \<open>The variables as declared: every one of them \<^verbatim>\<open>nil\<close>.\<close>

definition nil_vars :: vars where
  "nil_vars = \<lparr>geminiResp = None, groqResp = None, lastGeminiErr = None, lastGroqErr = None\<rparr>"

definition processQuestion ::
  "Config \<Rightarrow> string \<Rightarrow> (nat \<Rightarrow> remote) \<Rightarrow> event list \<times> (error + string) outcome" where
  "processQuestion config question env = retry_loop config question env 0 nil_vars"

subsection \<open>One turn of the loop of \<^verbatim>\<open>main\<close>\<close>

text \<open>
  Lines 121 to 135, from the text accumulated for one question: \<open>Return ()\<close> means that
  the interactive loop goes on to its next turn, \<open>Panic\<close> that the process has ended.
\<close>

definition main_turn ::
  "Config \<Rightarrow> (nat \<Rightarrow> remote) \<Rightarrow> string \<Rightarrow> event list \<times> unit outcome" where
  "main_turn config env input =
     (let question = TrimSpace input in
      if question = [] then ([], Return ())
      else
        (case processQuestion config question env of
           (evs, Panic p) \<Rightarrow> (evs, Panic p)
         | (evs, Return (Inl err)) \<Rightarrow>
             (evs @ [LogPrintf (''Error processing question: '' @ err)], Return ())
         | (evs, Return (Inr response)) \<Rightarrow>
             (evs @ [Printf (''\<newline>Response:\<newline>'' @ response @ ''\<newline>'')], Return ())))"

section \<open>Notions used to state the properties\<close>

subsection \<open>The point a run has reached\<close>

text \<open>
  \<open>reaches config question env attempt evs v\<close>: the loop of \<^verbatim>\<open>processQuestion\<close> is about
  to test its guard for \<open>attempt\<close>, with the variables \<open>v\<close> and the trace \<open>evs\<close> so far.
\<close>

inductive reaches :: "Config \<Rightarrow> string \<Rightarrow> (nat \<Rightarrow> remote) \<Rightarrow> nat \<Rightarrow> event list \<Rightarrow> vars \<Rightarrow> bool"
  for config question env where
  reaches_start: "reaches config question env 0 [] nil_vars"
| reaches_next:
    "reaches config question env attempt evs v \<Longrightarrow> int attempt < MaxRetries config \<Longrightarrow>
     attempt_step config question attempt (env attempt) v = (evs', Next v') \<Longrightarrow>
     reaches config question env (Suc attempt) (evs @ evs') v'"

subsection \<open>What one attempt yields for each backend\<close>

text \<open>
  Read off the calls of one attempt: the answer and the error of Backend A (Gemini), and
  those of Backend B (Groq), which is called only after Backend A has answered.
\<close>

definition gemini_answer :: "Config \<Rightarrow> string \<Rightarrow> remote \<Rightarrow> Response option" where
  "gemini_answer config question r =
     (case snd (getGeminiResponse (gemini r) question (GeminiKey config)) of
        Return (Inr a) \<Rightarrow> Some a
      | _ \<Rightarrow> None)"

definition gemini_error :: "Config \<Rightarrow> string \<Rightarrow> remote \<Rightarrow> error option" where
  "gemini_error config question r =
     (case snd (getGeminiResponse (gemini r) question (GeminiKey config)) of
        Return (Inl err) \<Rightarrow> Some err
      | _ \<Rightarrow> None)"

definition groq_answer :: "Config \<Rightarrow> string \<Rightarrow> remote \<Rightarrow> Response option" where
  "groq_answer config question r =
     (case gemini_answer config question r of
        None \<Rightarrow> None
      | Some a \<Rightarrow>
          (case snd (getGroqResponse (groq r) question (GroqKey config)) of
             Inl err \<Rightarrow> None
           | Inr b \<Rightarrow> Some b))"

definition groq_error :: "Config \<Rightarrow> string \<Rightarrow> remote \<Rightarrow> error option" where
  "groq_error config question r =
     (case gemini_answer config question r of
        None \<Rightarrow> None
      | Some a \<Rightarrow>
          (case snd (getGroqResponse (groq r) question (GroqKey config)) of
             Inl err \<Rightarrow> Some err
           | Inr b \<Rightarrow> None))"

text \<open>
  The attempt neither panics nor ends with the verdict \<^verbatim>\<open>true\<close>: a backend fails, the
  judge fails, or the judge answers something else.
\<close>

definition no_agreement :: "Config \<Rightarrow> string \<Rightarrow> remote \<Rightarrow> bool" where
  "no_agreement config question r =
     (case snd (getGeminiResponse (gemini r) question (GeminiKey config)) of
        Panic p \<Rightarrow> False
      | Return (Inl err) \<Rightarrow> True
      | Return (Inr a) \<Rightarrow>
          (case snd (getGroqResponse (groq r) question (GroqKey config)) of
             Inl err \<Rightarrow> True
           | Inr b \<Rightarrow>
               (case snd (compareResponses (judge r) (Content a) (Content b) (GeminiKey config)) of
                  Panic p \<Rightarrow> False
                | Return (Inl err) \<Rightarrow> True
                | Return (Inr similar) \<Rightarrow> \<not> similar)))"

text \<open>The value recorded last among the attempts \<open>0\<close> to \<open>n - 1\<close>.\<close>

primrec last_recorded :: "(nat \<Rightarrow> 'a option) \<Rightarrow> nat \<Rightarrow> 'a option" where
  "last_recorded f 0 = None"
| "last_recorded f (Suc n) = (case f n of Some x \<Rightarrow> Some x | None \<Rightarrow> last_recorded f n)"

text \<open>
  What \<^verbatim>\<open>groqResp\<close> holds after the attempts \<open>0\<close> to \<open>n - 1\<close>: the outcome of Backend B's
  call on the last of these attempts on which Backend A answered.
\<close>

primrec groq_held :: "Config \<Rightarrow> string \<Rightarrow> (nat \<Rightarrow> remote) \<Rightarrow> nat \<Rightarrow> Response option" where
  "groq_held config question env 0 = None"
| "groq_held config question env (Suc n) =
     (if gemini_answer config question (env n) = None then groq_held config question env n
      else groq_answer config question (env n))"

text \<open>What \<^verbatim>\<open>geminiResp\<close> holds after them: the outcome of Backend A's call on the last one.\<close>

definition gemini_held :: "Config \<Rightarrow> string \<Rightarrow> (nat \<Rightarrow> remote) \<Rightarrow> nat \<Rightarrow> Response option" where
  "gemini_held config question env n =
     (case n of 0 \<Rightarrow> None | Suc m \<Rightarrow> gemini_answer config question (env m))"

subsection \<open>The formatting in the words of the specification\<close>

text \<open>\<open>ins\<close> put before every occurrence of \<open>pat\<close>, the text itself unchanged.\<close>

fun insert_before :: "string \<Rightarrow> string \<Rightarrow> string \<Rightarrow> string" where
  "insert_before ins pat [] = []"
| "insert_before ins pat (c # cs) =
     (if prefix pat (c # cs) then ins else []) @ c # insert_before ins pat cs"

text \<open>
  A newline before every occurrence of \<^verbatim>\<open>Option\<close> and two newlines before every
  occurrence of \<^verbatim>\<open>Summary\<close>, in one pass over the response.
\<close>

fun spec_insert_breaks :: "string \<Rightarrow> string" where
  "spec_insert_breaks [] = []"
| "spec_insert_breaks (c # cs) =
     (if prefix ''Option'' (c # cs) then ''\<newline>''
      else if prefix ''Summary'' (c # cs) then ''\<newline>\<newline>''
      else []) @ c # spec_insert_breaks cs"

subsection \<open>Example inputs\<close>

definition demo_config :: "int \<Rightarrow> Config" where
  "demo_config n = \<lparr>GeminiKey = ''gemini-key'', GroqKey = ''groq-key'', MaxRetries = n\<rparr>"

definition answered :: "string \<Rightarrow> genai_remote" where
  "answered t = Generated [Some [Text t]]"

definition chosen :: "string \<Rightarrow> groq_remote" where
  "chosen t = Replied 200 (Decoded [t])"

text \<open>The services disagree on the first attempt and agree on the second.\<close>

definition agree_on_second :: "nat \<Rightarrow> remote" where
  "agree_on_second attempt =
     (if attempt = 0
      then \<lparr>gemini = answered ''A is correct'', groq = chosen ''B) 4 is correct'', judge = answered ''false''\<rparr>
      else \<lparr>gemini = answered ''B is correct'', groq = chosen ''B) 4 is correct'', judge = answered ''true''\<rparr>)"

text \<open>
  Backend B fails on the first attempt with the given error; on every later attempt
  Backend A fails.
\<close>

definition groq_fails_first :: "error \<Rightarrow> nat \<Rightarrow> remote" where
  "groq_fails_first e attempt =
     (if attempt = 0
      then \<lparr>gemini = answered ''4'', groq = DoFails e, judge = answered ''false''\<rparr>
      else \<lparr>gemini = GenerateFails ''timeout'', groq = chosen ''4'', judge = answered ''false''\<rparr>)"

text \<open>Backend A fails on every attempt.\<close>

definition gemini_always_fails :: "nat \<Rightarrow> remote" where
  "gemini_always_fails attempt =
     \<lparr>gemini = GenerateFails ''timeout'', groq = chosen ''4'', judge = answered ''true''\<rparr>"

text \<open>Both backends answer on every attempt, and the judge never says true.\<close>

definition differ :: "nat \<Rightarrow> remote" where
  "differ attempt =
     (if attempt = 0
      then \<lparr>gemini = answered ''Option A'', groq = chosen ''Option B'', judge = answered ''false''\<rparr>
      else \<lparr>gemini = answered ''Option B. Summary: B'', groq = chosen ''Option C. Summary: C'',
            judge = answered ''They differ.''\<rparr>)"

text \<open>Both backends answer, and the judge's reply has no candidate.\<close>

definition judge_reply_empty :: "nat \<Rightarrow> remote" where
  "judge_reply_empty attempt =
     \<lparr>gemini = answered ''4'', groq = chosen ''4'', judge = Generated []\<rparr>"

section \<open>Auxiliary facts\<close>

subsection \<open>One attempt\<close>

lemma step_gemini_error:
  assumes "snd (getGeminiResponse (gemini r) question (GeminiKey config)) = Return (Inl err)"
  shows "attempt_step config question attempt r v =
    (fst (getGeminiResponse (gemini r) question (GeminiKey config)) @
       [LogPrintf (''Attempt '' @ fmt_d (int attempt + 1) @ '': Gemini API error: '' @ err)],
     Next (v\<lparr>geminiResp := None, lastGeminiErr := Some err\<rparr>))"
  using assms by (cases "getGeminiResponse (gemini r) question (GeminiKey config)") (simp add: attempt_step_def)

lemma step_groq_error:
  assumes "snd (getGeminiResponse (gemini r) question (GeminiKey config)) = Return (Inr a)"
    and "snd (getGroqResponse (groq r) question (GroqKey config)) = Inl err"
  shows "attempt_step config question attempt r v =
    (fst (getGeminiResponse (gemini r) question (GeminiKey config)) @
     fst (getGroqResponse (groq r) question (GroqKey config)) @
       [LogPrintf (''Attempt '' @ fmt_d (int attempt + 1) @ '': Groq API error: '' @ err)],
     Next (v\<lparr>geminiResp := Some a, groqResp := None, lastGroqErr := Some err\<rparr>))"
  using assms
  by (cases "getGeminiResponse (gemini r) question (GeminiKey config)";
      cases "getGroqResponse (groq r) question (GroqKey config)") (simp add: attempt_step_def)

lemma step_compare:
  assumes "snd (getGeminiResponse (gemini r) question (GeminiKey config)) = Return (Inr a)"
    and "snd (getGroqResponse (groq r) question (GroqKey config)) = Inr b"
  shows "attempt_step config question attempt r v =
    (case compareResponses (judge r) (Content a) (Content b) (GeminiKey config) of
       (e3, res) \<Rightarrow>
         (fst (getGeminiResponse (gemini r) question (GeminiKey config)) @
          fst (getGroqResponse (groq r) question (GroqKey config)) @ e3 @
          (case res of
             Panic p \<Rightarrow> []
           | Return (Inl err) \<Rightarrow>
               [LogPrintf (''Attempt '' @ fmt_d (int attempt + 1) @ '': Comparison error: '' @ err)]
           | Return (Inr similar) \<Rightarrow>
               (if similar then []
                else [LogPrintf (''Attempt '' @ fmt_d (int attempt + 1) @
                                 '': Responses differ, retrying...'')])),
          (case res of
             Panic p \<Rightarrow> Crash p
           | Return (Inl err) \<Rightarrow> Next (v\<lparr>geminiResp := Some a, groqResp := Some b\<rparr>)
           | Return (Inr similar) \<Rightarrow>
               (if similar then Done (Content a)
                else Next (v\<lparr>geminiResp := Some a, groqResp := Some b\<rparr>)))))"
  using assms
  by (cases "getGeminiResponse (gemini r) question (GeminiKey config)";
      cases "getGroqResponse (groq r) question (GroqKey config)")
     (simp add: attempt_step_def split: prod.splits outcome.splits sum.splits)

lemma attempt_step_events:
  "fst (attempt_step config question attempt r v) = fst (attempt_step config question attempt r v')"
  by (simp add: attempt_step_def split: prod.splits outcome.splits sum.splits)

lemma no_agreement_Next:
  assumes "no_agreement config question r"
  shows "\<exists>v'. snd (attempt_step config question attempt r v) = Next v'"
  using assms
  by (auto simp: no_agreement_def attempt_step_def split: prod.splits outcome.splits sum.splits)

text \<open>What a step that goes on to the next attempt leaves in the variables.\<close>

lemma Next_vars:
  assumes "attempt_step config question attempt r v = (evs, Next v')"
  shows "geminiResp v' = gemini_answer config question r"
    and "groqResp v' =
           (if gemini_answer config question r = None then groqResp v
            else groq_answer config question r)"
    and "lastGeminiErr v' =
           (case gemini_error config question r of None \<Rightarrow> lastGeminiErr v | Some e \<Rightarrow> Some e)"
    and "lastGroqErr v' =
           (case groq_error config question r of None \<Rightarrow> lastGroqErr v | Some e \<Rightarrow> Some e)"
  using assms
  by (auto simp: attempt_step_def gemini_answer_def gemini_error_def groq_answer_def groq_error_def
           split: prod.splits outcome.splits sum.splits if_splits)

subsection \<open>The loop\<close>

lemma retry_loop_exit:
  "\<not> int attempt < MaxRetries config \<Longrightarrow>
   retry_loop config question env attempt v = ([], Return (exhausted config v))"
  by (simp add: retry_loop.simps)

lemma retry_loop_next:
  "int attempt < MaxRetries config \<Longrightarrow>
   attempt_step config question attempt (env attempt) v = (evs, Next v') \<Longrightarrow>
   retry_loop config question env attempt v =
     (evs @ fst (retry_loop config question env (Suc attempt) v'),
      snd (retry_loop config question env (Suc attempt) v'))"
  by (subst retry_loop.simps) (simp split: prod.splits)

lemma retry_loop_done:
  "int attempt < MaxRetries config \<Longrightarrow>
   attempt_step config question attempt (env attempt) v = (evs, Done content) \<Longrightarrow>
   retry_loop config question env attempt v = (evs, Return (Inr content))"
  by (subst retry_loop.simps) simp

lemma retry_loop_crash:
  "int attempt < MaxRetries config \<Longrightarrow>
   attempt_step config question attempt (env attempt) v = (evs, Crash p) \<Longrightarrow>
   retry_loop config question env attempt v = (evs, Panic p)"
  by (subst retry_loop.simps) simp

lemma reaches_processQuestion:
  "reaches config question env attempt evs v \<Longrightarrow>
   processQuestion config question env =
     (evs @ fst (retry_loop config question env attempt v),
      snd (retry_loop config question env attempt v))"
proof (induction rule: reaches.induct)
  case reaches_start
  show ?case by (simp add: processQuestion_def nil_vars_def)
next
  case (reaches_next attempt evs v evs' v')
  from reaches_next.hyps(2,3) reaches_next.IH show ?case
    by (simp add: retry_loop_next)
qed

text \<open>When the guard fails at the point reached, the result is the code after the loop.\<close>

lemma reaches_exhausted:
  assumes "reaches config question env k evs v" and "\<not> int k < MaxRetries config"
  shows "processQuestion config question env = (evs, Return (exhausted config v))"
  using reaches_processQuestion[OF assms(1)] assms(2) by (simp add: retry_loop_exit)

lemma reaches_exists:
  assumes "\<forall>j<k. no_agreement config question (env j)" and "k = 0 \<or> int k \<le> MaxRetries config"
  shows "\<exists>evs v. reaches config question env k evs v"
  using assms
proof (induction k)
  case 0
  show ?case by (blast intro: reaches_start)
next
  case (Suc k)
  then obtain evs v where r: "reaches config question env k evs v"
    by (cases k) auto
  from Suc.prems have "no_agreement config question (env k)" by simp
  then obtain v' where "snd (attempt_step config question k (env k) v) = Next v'"
    using no_agreement_Next by blast
  then have "attempt_step config question k (env k) v =
      (fst (attempt_step config question k (env k) v), Next v')"
    by (cases "attempt_step config question k (env k) v") simp
  moreover from Suc.prems have "int k < MaxRetries config" by simp
  ultimately show ?case using r reaches_next by blast
qed

lemma reaches_events:
  "reaches config question env k evs v \<Longrightarrow>
   evs = concat (map (\<lambda>j. fst (attempt_step config question j (env j) nil_vars)) [0..<k])"
proof (induction rule: reaches.induct)
  case reaches_start
  show ?case by simp
next
  case (reaches_next attempt evs v evs' v')
  have "evs' = fst (attempt_step config question attempt (env attempt) nil_vars)"
    using reaches_next.hyps(3) attempt_step_events[of config question attempt "env attempt" v nil_vars]
    by simp
  with reaches_next.IH show ?case by simp
qed

lemma reaches_errors:
  "reaches config question env k evs v \<Longrightarrow>
   lastGeminiErr v = last_recorded (\<lambda>j. gemini_error config question (env j)) k \<and>
   lastGroqErr v = last_recorded (\<lambda>j. groq_error config question (env j)) k"
proof (induction rule: reaches.induct)
  case reaches_start
  show ?case by (simp add: nil_vars_def)
next
  case (reaches_next attempt evs v evs' v')
  from Next_vars(3,4)[OF reaches_next.hyps(3)] reaches_next.IH show ?case
    by (simp split: option.splits)
qed

lemma reaches_last_attempt:
  "reaches config question env k evs v \<Longrightarrow> k = Suc m \<Longrightarrow>
   geminiResp v = gemini_answer config question (env m) \<and>
   (gemini_answer config question (env m) \<noteq> None \<longrightarrow>
      groqResp v = groq_answer config question (env m))"
proof (induction arbitrary: m rule: reaches.induct)
  case reaches_start
  then show ?case by simp
next
  case (reaches_next attempt evs v evs' v')
  from Next_vars(1,2)[OF reaches_next.hyps(3)] reaches_next.prems show ?case
    by simp
qed

lemma reaches_no_groq_answer:
  "reaches config question env k evs v \<Longrightarrow>
   \<forall>j<k. groq_answer config question (env j) = None \<Longrightarrow> groqResp v = None"
proof (induction rule: reaches.induct)
  case reaches_start
  show ?case by (simp add: nil_vars_def)
next
  case (reaches_next attempt evs v evs' v')
  from Next_vars(2)[OF reaches_next.hyps(3)] reaches_next.IH reaches_next.prems show ?case
    by simp
qed

lemma agreement_stops_loop:
  assumes "int k < MaxRetries config"
    and "snd (getGeminiResponse (gemini (env k)) question (GeminiKey config)) = Return (Inr a)"
    and "snd (getGroqResponse (groq (env k)) question (GroqKey config)) = Inr b"
    and "snd (compareResponses (judge (env k)) (Content a) (Content b) (GeminiKey config)) =
           Return (Inr True)"
  shows "retry_loop config question env k v =
     (fst (getGeminiResponse (gemini (env k)) question (GeminiKey config)) @
      fst (getGroqResponse (groq (env k)) question (GroqKey config)) @
      fst (compareResponses (judge (env k)) (Content a) (Content b) (GeminiKey config)),
      Return (Inr (Content a)))"
proof -
  have "attempt_step config question k (env k) v =
     (fst (getGeminiResponse (gemini (env k)) question (GeminiKey config)) @
      fst (getGroqResponse (groq (env k)) question (GroqKey config)) @
      fst (compareResponses (judge (env k)) (Content a) (Content b) (GeminiKey config)),
      Done (Content a))"
    using assms(4)
    by (cases "compareResponses (judge (env k)) (Content a) (Content b) (GeminiKey config)")
       (simp add: step_compare[OF assms(2,3)])
  with assms(1) show ?thesis by (rule retry_loop_done)
qed

subsection \<open>Formatting\<close>

lemma insert_before_skip:
  "p \<notin> set xs \<Longrightarrow>
   insert_before ins (p # ps) (xs @ rest) = xs @ insert_before ins (p # ps) rest"
  by (induction xs) auto

lemma ReplaceAll_insert_before:
  assumes "p \<notin> set ps"
  shows "ReplaceAll s (p # ps) (ins @ p # ps) = insert_before ins (p # ps) s"
proof (induction s "p # ps" "ins @ p # ps" rule: ReplaceAll.induct)
  case (1 s)
  show ?case
  proof (cases "s = []")
    case True
    then show ?thesis by (simp add: ReplaceAll.simps)
  next
    case False
    show ?thesis
    proof (cases "prefix (p # ps) s")
      case True
      then obtain rest where s: "s = p # ps @ rest"
        by (auto simp: prefix_def)
      have "ReplaceAll s (p # ps) (ins @ p # ps) =
              (ins @ p # ps) @ ReplaceAll rest (p # ps) (ins @ p # ps)"
        using True False s by (subst ReplaceAll.simps) simp
      also have "ReplaceAll rest (p # ps) (ins @ p # ps) = insert_before ins (p # ps) rest"
        using "1.hyps"(1)[OF False] True s by simp
      also have "(ins @ p # ps) @ insert_before ins (p # ps) rest = insert_before ins (p # ps) s"
        using insert_before_skip[OF assms, of ins ps rest] s by simp
      finally show ?thesis .
    next
      case nopre: False
      from False obtain c cs where s: "s = c # cs" by (cases s) auto
      have "ReplaceAll s (p # ps) (ins @ p # ps) = c # ReplaceAll cs (p # ps) (ins @ p # ps)"
        using nopre s by (subst ReplaceAll.simps) (simp del: Cons_prefix_Cons)
      also have "ReplaceAll cs (p # ps) (ins @ p # ps) = insert_before ins (p # ps) cs"
        using "1.hyps"(2)[OF False] nopre s by simp
      finally show ?thesis using nopre s by (simp del: Cons_prefix_Cons)
    qed
  qed
qed

lemma prefix_insert_before:
  "p \<notin> set pat2 \<Longrightarrow> set ins \<inter> set pat2 = {} \<Longrightarrow>
   prefix pat2 (insert_before ins (p # ps) s) = prefix pat2 s"
proof (induction pat2 arbitrary: s)
  case Nil
  show ?case by simp
next
  case (Cons x xs)
  show ?case
  proof (cases s)
    case Nil
    then show ?thesis by simp
  next
    case (Cons c cs)
    show ?thesis
    proof (cases "prefix (p # ps) (c # cs)")
      case True
      then have "c = p" by simp
      with Cons.prems True Cons show ?thesis by (cases ins) auto
    next
      case False
      with Cons.prems Cons.IH[of cs] Cons show ?thesis by auto
    qed
  qed
qed

lemma insert_before_twice:
  "insert_before ''\<newline>\<newline>'' ''Summary'' (insert_before ''\<newline>'' ''Option'' s) = spec_insert_breaks s"
proof (induction s)
  case Nil
  show ?case by simp
next
  case (Cons c cs)
  let ?inner = "insert_before ''\<newline>'' ''Option''"
  let ?outer = "insert_before ''\<newline>\<newline>'' ''Summary''"
  have inner: "prefix ''ummary'' (?inner cs) = prefix ''ummary'' cs"
    by (rule prefix_insert_before) auto
  then have summary: "prefix ''Summary'' (c # ?inner cs) = prefix ''Summary'' (c # cs)"
    by simp
  show ?case
  proof (cases "prefix ''Option'' (c # cs)")
    case True
    then have c: "c = CHR ''O''" by simp
    have "?inner (c # cs) = CHR ''\<newline>'' # c # ?inner cs"
      using True by (simp del: Cons_prefix_Cons)
    then have "?outer (?inner (c # cs)) = CHR ''\<newline>'' # c # ?outer (?inner cs)"
      using c by simp
    also have "\<dots> = spec_insert_breaks (c # cs)"
      using True Cons.IH by (simp del: Cons_prefix_Cons)
    finally show ?thesis .
  next
    case False
    then have "?inner (c # cs) = c # ?inner cs"
      by (simp del: Cons_prefix_Cons)
    then have "?outer (?inner (c # cs)) =
        (if prefix ''Summary'' (c # cs) then ''\<newline>\<newline>'' else []) @ c # ?outer (?inner cs)"
      using summary by (simp del: Cons_prefix_Cons)
    also have "\<dots> = spec_insert_breaks (c # cs)"
      using False Cons.IH by (simp del: Cons_prefix_Cons)
    finally show ?thesis .
  qed
qed

lemma formatResponse_spec: "formatResponse s = spec_insert_breaks s"
proof -
  have "ReplaceAll s ''Option'' ''\<newline>Option'' = insert_before ''\<newline>'' ''Option'' s"
    using ReplaceAll_insert_before[of "CHR ''O''" "''ption''" s "''\<newline>''"] by simp
  moreover have "ReplaceAll t ''Summary'' ''\<newline>\<newline>Summary'' = insert_before ''\<newline>\<newline>'' ''Summary'' t" for t
    using ReplaceAll_insert_before[of "CHR ''S''" "''ummary''" t "''\<newline>\<newline>''"] by simp
  ultimately show ?thesis
    by (simp add: formatResponse_def insert_before_twice)
qed

subsection \<open>Lower case\<close>

lemma lower_byte_t: "lower_byte c = CHR ''t'' \<longleftrightarrow> c = CHR ''t'' \<or> c = CHR ''T''"
  by (cases c) (auto simp: lower_byte_def less_eq_char_def char_of_def bit_simps split: if_splits)

lemma lower_byte_r: "lower_byte c = CHR ''r'' \<longleftrightarrow> c = CHR ''r'' \<or> c = CHR ''R''"
  by (cases c) (auto simp: lower_byte_def less_eq_char_def char_of_def bit_simps split: if_splits)

lemma lower_byte_u: "lower_byte c = CHR ''u'' \<longleftrightarrow> c = CHR ''u'' \<or> c = CHR ''U''"
  by (cases c) (auto simp: lower_byte_def less_eq_char_def char_of_def bit_simps split: if_splits)

lemma lower_byte_e: "lower_byte c = CHR ''e'' \<longleftrightarrow> c = CHR ''e'' \<or> c = CHR ''E''"
  by (cases c) (auto simp: lower_byte_def less_eq_char_def char_of_def bit_simps split: if_splits)

lemma ToLower_true:
  "ToLower u = ''true'' \<longleftrightarrow>
     (\<exists>c1 c2 c3 c4. u = [c1, c2, c3, c4] \<and> c1 \<in> {CHR ''t'', CHR ''T''} \<and>
        c2 \<in> {CHR ''r'', CHR ''R''} \<and> c3 \<in> {CHR ''u'', CHR ''U''} \<and> c4 \<in> {CHR ''e'', CHR ''E''})"
  (is "?lhs \<longleftrightarrow> ?rhs")
proof
  assume ?lhs
  then have "length (map lower_byte u) = length ''true''"
    by (simp only: ToLower_def)
  then have len: "length u = 4"
    by simp
  then obtain c1 c2 c3 c4 where u: "u = [c1, c2, c3, c4]"
    by (auto simp: length_Suc_conv numeral_eq_Suc)
  with \<open>?lhs\<close> have "lower_byte c1 = CHR ''t''" "lower_byte c2 = CHR ''r''"
        "lower_byte c3 = CHR ''u''" "lower_byte c4 = CHR ''e''"
    by (simp_all add: ToLower_def)
  then have "c1 \<in> {CHR ''t'', CHR ''T''}" "c2 \<in> {CHR ''r'', CHR ''R''}"
      "c3 \<in> {CHR ''u'', CHR ''U''}" "c4 \<in> {CHR ''e'', CHR ''E''}"
    by (simp_all only: lower_byte_t lower_byte_r lower_byte_u lower_byte_e insert_iff empty_iff simp_thms)
  with u show ?rhs by blast
next
  assume ?rhs
  then obtain c1 c2 c3 c4 where u: "u = [c1, c2, c3, c4]"
    and c: "c1 \<in> {CHR ''t'', CHR ''T''}" "c2 \<in> {CHR ''r'', CHR ''R''}"
      "c3 \<in> {CHR ''u'', CHR ''U''}" "c4 \<in> {CHR ''e'', CHR ''E''}"
    by blast
  from c have "lower_byte c1 = CHR ''t''" "lower_byte c2 = CHR ''r''"
        "lower_byte c3 = CHR ''u''" "lower_byte c4 = CHR ''e''"
    by (simp_all only: lower_byte_t lower_byte_r lower_byte_u lower_byte_e insert_iff empty_iff simp_thms)
  with u show ?lhs by (simp add: ToLower_def)
qed

text \<open>
  A reply that carries a text part: the verdict is true exactly when the text, trimmed
  and put in lower case, is \<^verbatim>\<open>true\<close>, and no error is returned.
\<close>

lemma compareResponses_text_verdict:
  "compareResponses (Generated (Some (Text t # parts) # candidates)) resp1 resp2 geminiKey =
     ([GenerateContent geminiKey ''gemini-pro'' (comparisonPrompt resp1 resp2)],
      Return (Inr (ToLower (TrimSpace t) = ''true'')))
   \<and> (ToLower (TrimSpace t) = ''true'' \<longleftrightarrow>
        (\<exists>c1 c2 c3 c4. TrimSpace t = [c1, c2, c3, c4] \<and> c1 \<in> {CHR ''t'', CHR ''T''} \<and>
           c2 \<in> {CHR ''r'', CHR ''R''} \<and> c3 \<in> {CHR ''u'', CHR ''U''} \<and>
           c4 \<in> {CHR ''e'', CHR ''E''}))
   \<and> snd (compareResponses (Generated [Some [Text '' True\<newline>'']]) resp1 resp2 geminiKey) =
        Return (Inr True)
   \<and> snd (compareResponses (Generated [Some [Text ''True.'']]) resp1 resp2 geminiKey) =
        Return (Inr False)
   \<and> snd (compareResponses (Generated [Some [Text ''no'']]) resp1 resp2 geminiKey) =
        Return (Inr False)
   \<and> snd (compareResponses (Generated [Some [Text '''']]) resp1 resp2 geminiKey) =
        Return (Inr False)
   \<and> snd (compareResponses (Generated [Some [Text ''true, they agree'']]) resp1 resp2 geminiKey) =
        Return (Inr False)"
proof -
  have general: "compareResponses (Generated (Some (Text u # ps) # cs)) resp1 resp2 geminiKey =
     ([GenerateContent geminiKey ''gemini-pro'' (comparisonPrompt resp1 resp2)],
      Return (Inr (ToLower (TrimSpace u) = ''true'')))" for u ps cs
    by (simp add: compareResponses_def first_text_def)
  have "ToLower (TrimSpace '' True\<newline>'') = ''true''" by code_simp
  moreover have "ToLower (TrimSpace ''True.'') \<noteq> ''true''" by code_simp
  moreover have "ToLower (TrimSpace ''no'') \<noteq> ''true''" by code_simp
  moreover have "ToLower (TrimSpace '''') \<noteq> ''true''" by code_simp
  moreover have "ToLower (TrimSpace ''true, they agree'') \<noteq> ''true''" by code_simp
  ultimately show ?thesis
    using ToLower_true[of "TrimSpace t"] by (simp only: general snd_conv simp_thms)
qed

subsection \<open>The code after the loop\<close>

lemma exhausted_error:
  assumes "geminiResp v = None" and "groqResp v = None"
  shows "exhausted config v =
     Inl (''failed to get responses after '' @ fmt_d (MaxRetries config) @
          '' attempts. Gemini error: '' @ fmt_v (lastGeminiErr v) @
          '', Groq error: '' @ fmt_v (lastGroqErr v))"
  using assms by (simp add: exhausted_def)

lemma exhausted_answers:
  assumes "geminiResp v = Some a"
  shows "exhausted config v =
     Inr (''Responses after '' @ fmt_d (MaxRetries config) @
          '' attempts:\<newline>\<newline>Gemini Response:\<newline>'' @ formatResponse (Content a) @
          ''\<newline>\<newline>Groq Response:\<newline>'' @
          (case groqResp v of
             None \<Rightarrow> ''Error getting response''
           | Some b \<Rightarrow> formatResponse (Content b)))"
  using assms by (simp add: exhausted_def)

subsection \<open>Runs without agreement\<close>

lemma failure_no_agreement:
  assumes "gemini_error config question r \<noteq> None \<or> groq_error config question r \<noteq> None"
  shows "no_agreement config question r" and "groq_answer config question r = None"
  using assms
  by (auto simp: gemini_error_def groq_error_def gemini_answer_def groq_answer_def no_agreement_def
           split: outcome.splits sum.splits option.splits)

text \<open>A run in which no attempt ends in agreement goes through every attempt.\<close>

lemma runs_every_attempt:
  assumes "\<forall>j. int j < MaxRetries config \<longrightarrow> no_agreement config question (env j)"
  obtains evs v where "reaches config question env (nat (MaxRetries config)) evs v"
    and "processQuestion config question env = (evs, Return (exhausted config v))"
proof -
  from assms have "\<forall>j<nat (MaxRetries config). no_agreement config question (env j)"
    by simp
  moreover have "nat (MaxRetries config) = 0 \<or> int (nat (MaxRetries config)) \<le> MaxRetries config"
    by simp
  ultimately obtain evs v where r: "reaches config question env (nat (MaxRetries config)) evs v"
    using reaches_exists by blast
  moreover have "\<not> int (nat (MaxRetries config)) < MaxRetries config"
    by simp
  with r have "processQuestion config question env = (evs, Return (exhausted config v))"
    by (rule reaches_exhausted)
  ultimately show thesis by (rule that)
qed

lemma gemini_failures_reach:
  assumes "\<forall>j<k. snd (getGeminiResponse (gemini (env j)) question (GeminiKey config)) =
                   Return (Inl (errs j))"
    and "k = 0 \<or> int k \<le> MaxRetries config"
  shows "reaches config question env k
     (concat (map (\<lambda>j. fst (getGeminiResponse (gemini (env j)) question (GeminiKey config)) @
                       [LogPrintf (''Attempt '' @ fmt_d (int j + 1) @
                                   '': Gemini API error: '' @ errs j)]) [0..<k]))
     (if k = 0 then nil_vars
      else nil_vars\<lparr>geminiResp := None, lastGeminiErr := Some (errs (k - 1))\<rparr>)"
  using assms
proof (induction k)
  case 0
  show ?case by (simp add: reaches_start)
next
  case (Suc k)
  let ?v = "if k = 0 then nil_vars
            else nil_vars\<lparr>geminiResp := None, lastGeminiErr := Some (errs (k - 1))\<rparr>"
  let ?e = "fst (getGeminiResponse (gemini (env k)) question (GeminiKey config)) @
            [LogPrintf (''Attempt '' @ fmt_d (int k + 1) @ '': Gemini API error: '' @ errs k)]"
  from Suc.prems have budget: "int k < MaxRetries config" by simp
  from Suc.prems have r: "reaches config question env k
     (concat (map (\<lambda>j. fst (getGeminiResponse (gemini (env j)) question (GeminiKey config)) @
                       [LogPrintf (''Attempt '' @ fmt_d (int j + 1) @
                                   '': Gemini API error: '' @ errs j)]) [0..<k])) ?v"
    by (intro Suc.IH) auto
  from Suc.prems
  have "snd (getGeminiResponse (gemini (env k)) question (GeminiKey config)) = Return (Inl (errs k))"
    by simp
  then have "attempt_step config question k (env k) ?v =
      (?e, Next (?v\<lparr>geminiResp := None, lastGeminiErr := Some (errs k)\<rparr>))"
    by (rule step_gemini_error)
  with r budget have "reaches config question env (Suc k)
     (concat (map (\<lambda>j. fst (getGeminiResponse (gemini (env j)) question (GeminiKey config)) @
                       [LogPrintf (''Attempt '' @ fmt_d (int j + 1) @
                                   '': Gemini API error: '' @ errs j)]) [0..<k]) @ ?e)
     (?v\<lparr>geminiResp := None, lastGeminiErr := Some (errs k)\<rparr>)"
    by (rule reaches_next)
  moreover have "?v\<lparr>geminiResp := None, lastGeminiErr := Some (errs k)\<rparr> =
      nil_vars\<lparr>geminiResp := None, lastGeminiErr := Some (errs k)\<rparr>"
    by simp
  ultimately show ?case by simp
qed

subsection \<open>Where a returned text comes from\<close>

lemma gemini_answer_text:
  assumes "gemini_answer config question r = Some a"
  shows "\<exists>parts candidates. gemini r = Generated (Some (Text (Content a) # parts) # candidates)"
  using assms
  by (auto simp: gemini_answer_def getGeminiResponse_def first_text_def
           split: genai_remote.splits list.splits option.splits Part.splits outcome.splits sum.splits)

lemma Done_agreement:
  assumes "attempt_step config question attempt r v = (evs, Done content)"
  shows "\<exists>a b. gemini_answer config question r = Some a \<and> groq_answer config question r = Some b \<and>
           snd (compareResponses (judge r) (Content a) (Content b) (GeminiKey config)) =
             Return (Inr True) \<and>
           content = Content a"
  using assms
  by (auto simp: attempt_step_def gemini_answer_def groq_answer_def
           split: prod.splits outcome.splits sum.splits if_splits)

lemma reaches_held:
  "reaches config question env k evs v \<Longrightarrow>
   geminiResp v = gemini_held config question env k \<and>
   groqResp v = groq_held config question env k"
proof (induction rule: reaches.induct)
  case reaches_start
  show ?case by (simp add: nil_vars_def gemini_held_def)
next
  case (reaches_next attempt evs v evs' v')
  from Next_vars(1,2)[OF reaches_next.hyps(3)] reaches_next.IH show ?case
    by (simp add: gemini_held_def)
qed

lemma Next_no_agreement:
  assumes "attempt_step config question attempt r v = (evs, Next v')"
  shows "no_agreement config question r"
  using assms
  by (auto simp: attempt_step_def no_agreement_def
           split: prod.splits outcome.splits sum.splits if_splits)

lemma reaches_no_agreement:
  "reaches config question env k evs v \<Longrightarrow> \<forall>j<k. no_agreement config question (env j)"
proof (induction rule: reaches.induct)
  case reaches_start
  show ?case by simp
next
  case (reaches_next attempt evs v evs' v')
  from Next_no_agreement[OF reaches_next.hyps(3)] reaches_next.IH show ?case
    by (auto simp: less_Suc_eq)
qed

lemma reaches_bound:
  "reaches config question env k evs v \<Longrightarrow> k = 0 \<or> int k \<le> MaxRetries config"
  by (induction rule: reaches.induct) auto

text \<open>
  A text returned by the loop, entered at a point the run has reached, is the content of
  Backend A's answer on an attempt that ended in agreement, or what the code after the
  loop makes of the variables the run holds when every attempt has been made.
\<close>

lemma retry_loop_tied:
  "snd (retry_loop config question env attempt v) = Return (Inr out) \<Longrightarrow>
   reaches config question env attempt evs v \<Longrightarrow>
   (\<exists>k a b. int k < MaxRetries config \<and> gemini_answer config question (env k) = Some a \<and>
       groq_answer config question (env k) = Some b \<and>
       snd (compareResponses (judge (env k)) (Content a) (Content b) (GeminiKey config)) =
         Return (Inr True) \<and>
       out = Content a) \<or>
   (\<exists>evs' v'. reaches config question env (nat (MaxRetries config)) evs' v' \<and>
       exhausted config v' = Inr out)"
proof (induction config question env attempt v arbitrary: evs rule: retry_loop.induct)
  case (1 config question env attempt v)
  show ?case
  proof (cases "int attempt < MaxRetries config")
    case False
    with "1.prems"(1) have ex: "exhausted config v = Inr out"
      by (simp add: retry_loop_exit)
    from reaches_bound[OF "1.prems"(2)] False have "attempt = nat (MaxRetries config)"
      by auto
    with "1.prems"(2) ex show ?thesis by blast
  next
    case True
    obtain es st where st: "attempt_step config question attempt (env attempt) v = (es, st)"
      by (cases "attempt_step config question attempt (env attempt) v")
    show ?thesis
    proof (cases st)
      case (Next v')
      with st True "1.prems"(1)
      have out: "snd (retry_loop config question env (Suc attempt) v') = Return (Inr out)"
        by (simp add: retry_loop_next)
      from "1.prems"(2) True st Next
      have "reaches config question env (Suc attempt) (evs @ es) v'"
        by (simp add: reaches_next)
      with "1.IH"[OF True st[symmetric] Next out] show ?thesis by simp
    next
      case (Done content)
      with st True "1.prems"(1) have "out = content"
        by (simp add: retry_loop_done)
      with Done_agreement[of config question attempt "env attempt" v es content] st Done True
      show ?thesis by blast
    next
      case (Crash p)
      with st True "1.prems"(1) show ?thesis
        by (simp add: retry_loop_crash)
    qed
  qed
qed

subsection \<open>Where a panic comes from\<close>

lemma Crash_panic:
  assumes "attempt_step config question attempt r v = (evs, Crash p)"
  shows "snd (getGeminiResponse (gemini r) question (GeminiKey config)) = Panic p \<or>
         (\<exists>a b. snd (compareResponses (judge r) a b (GeminiKey config)) = Panic p)"
  using assms
  by (auto simp: attempt_step_def split: prod.splits outcome.splits sum.splits if_splits)
     (metis snd_conv)

text \<open>A panic of the loop is a panic of one of the two calls that index the reply.\<close>

lemma retry_loop_panic:
  "snd (retry_loop config question env attempt v) = Panic p \<Longrightarrow>
   \<exists>k. int k < MaxRetries config \<and>
       (snd (getGeminiResponse (gemini (env k)) question (GeminiKey config)) = Panic p \<or>
        (\<exists>a b. snd (compareResponses (judge (env k)) a b (GeminiKey config)) = Panic p))"
proof (induction config question env attempt v rule: retry_loop.induct)
  case (1 config question env attempt v)
  show ?case
  proof (cases "int attempt < MaxRetries config")
    case False
    with "1.prems" show ?thesis
      by (simp add: retry_loop_exit)
  next
    case True
    obtain evs st where st: "attempt_step config question attempt (env attempt) v = (evs, st)"
      by (cases "attempt_step config question attempt (env attempt) v")
    show ?thesis
    proof (cases st)
      case (Next v')
      with st True "1.prems"
      have "snd (retry_loop config question env (Suc attempt) v') = Panic p"
        by (simp add: retry_loop_next)
      with "1.IH"[OF True st[symmetric] Next] show ?thesis by simp
    next
      case (Done content)
      with st True "1.prems" show ?thesis
        by (simp add: retry_loop_done)
    next
      case (Crash p')
      with st True "1.prems" have "p' = p"
        by (simp add: retry_loop_crash)
      with Crash_panic[of config question attempt "env attempt" v evs p] st Crash True
      show ?thesis by blast
    qed
  qed
qed

text \<open>
  Unless one of these calls panics, a turn of \<^verbatim>\<open>main\<close> ends with the loop going on: an
  error that a client returns as a value never ends the process.
\<close>

lemma main_turn_goes_on:
  assumes "\<forall>k p. int k < MaxRetries config \<longrightarrow>
             snd (getGeminiResponse (gemini (env k)) (TrimSpace input) (GeminiKey config)) \<noteq> Panic p"
    and "\<forall>k a b p. int k < MaxRetries config \<longrightarrow>
             snd (compareResponses (judge (env k)) a b (GeminiKey config)) \<noteq> Panic p"
  shows "snd (main_turn config env input) = Return ()"
proof (cases "snd (processQuestion config (TrimSpace input) env)")
  case (Panic p)
  then have "\<exists>k. int k < MaxRetries config \<and>
       (snd (getGeminiResponse (gemini (env k)) (TrimSpace input) (GeminiKey config)) = Panic p \<or>
        (\<exists>a b. snd (compareResponses (judge (env k)) a b (GeminiKey config)) = Panic p))"
    unfolding processQuestion_def by (rule retry_loop_panic)
  with assms show ?thesis by blast
next
  case (Return res)
  then show ?thesis
    by (cases "processQuestion config (TrimSpace input) env"; cases res)
       (simp_all add: main_turn_def Let_def)
qed

subsection \<open>The example inputs\<close>

lemma demo_first_attempt:
  "attempt_step (demo_config 3) ''2+2=? A) 3 B) 4'' 0 (agree_on_second 0) nil_vars =
     (fst (attempt_step (demo_config 3) ''2+2=? A) 3 B) 4'' 0 (agree_on_second 0) nil_vars),
      Next \<lparr>geminiResp = Some \<lparr>Source = ''Gemini'', Content = ''A is correct''\<rparr>,
            groqResp = Some \<lparr>Source = ''Groq'', Content = ''B) 4 is correct''\<rparr>,
            lastGeminiErr = None, lastGroqErr = None\<rparr>)"
  by code_simp

lemma demo_budget:
  "nat (MaxRetries (demo_config 2)) = 2" "0 < MaxRetries (demo_config 2)"
  "nat (MaxRetries (demo_config 1)) = 1" "0 < MaxRetries (demo_config 1)"
  "int j < MaxRetries (demo_config 2) \<longleftrightarrow> j = 0 \<or> j = Suc 0"
  by (auto simp: demo_config_def)

lemma demo_fmt_d:
  "fmt_d (MaxRetries (demo_config 2)) = ''2''" "fmt_d 1 = ''1''" "fmt_d 2 = ''2''"
  by code_simp+


section \<open>The claims\<close>

text \<open>
  Claim C1.  If the loop reaches attempt \<open>k\<close> with budget left, and on that attempt
  Backend A answers, Backend B answers and the judge returns true, then
  \<^verbatim>\<open>processQuestion\<close> returns exactly the content of Backend A's answer, and its trace
  ends with the three calls of attempt \<open>k\<close>: nothing is called after them, whatever
  budget remains.
\<close>

theorem agreement_returns_gemini_content:
  assumes "reaches config question env k evs v"
    and "int k < MaxRetries config"
    and "snd (getGeminiResponse (gemini (env k)) question (GeminiKey config)) = Return (Inr a)"
    and "snd (getGroqResponse (groq (env k)) question (GroqKey config)) = Inr b"
    and "snd (compareResponses (judge (env k)) (Content a) (Content b) (GeminiKey config)) =
           Return (Inr True)"
  shows "processQuestion config question env =
     (evs @
      fst (getGeminiResponse (gemini (env k)) question (GeminiKey config)) @
      fst (getGroqResponse (groq (env k)) question (GroqKey config)) @
      fst (compareResponses (judge (env k)) (Content a) (Content b) (GeminiKey config)),
      Return (Inr (Content a)))"
  using reaches_processQuestion[OF assms(1)] agreement_stops_loop[where env = env and k = k and v = v, OF assms(2-5)]
  by simp

theorem agreement_returns_gemini_content_witness:
  "reaches (demo_config 3) ''2+2=? A) 3 B) 4'' agree_on_second (Suc 0)
     (fst (attempt_step (demo_config 3) ''2+2=? A) 3 B) 4'' 0 (agree_on_second 0) nil_vars))
     \<lparr>geminiResp = Some \<lparr>Source = ''Gemini'', Content = ''A is correct''\<rparr>,
      groqResp = Some \<lparr>Source = ''Groq'', Content = ''B) 4 is correct''\<rparr>,
      lastGeminiErr = None, lastGroqErr = None\<rparr>
   \<and> int (Suc 0) < MaxRetries (demo_config 3)
   \<and> snd (getGeminiResponse (gemini (agree_on_second (Suc 0))) ''2+2=? A) 3 B) 4''
            (GeminiKey (demo_config 3))) =
       Return (Inr \<lparr>Source = ''Gemini'', Content = ''B is correct''\<rparr>)
   \<and> snd (getGroqResponse (groq (agree_on_second (Suc 0))) ''2+2=? A) 3 B) 4''
            (GroqKey (demo_config 3))) =
       Inr \<lparr>Source = ''Groq'', Content = ''B) 4 is correct''\<rparr>
   \<and> snd (compareResponses (judge (agree_on_second (Suc 0))) ''B is correct'' ''B) 4 is correct''
            (GeminiKey (demo_config 3))) =
       Return (Inr True)
   \<and> snd (processQuestion (demo_config 3) ''2+2=? A) 3 B) 4'' agree_on_second) =
       Return (Inr ''B is correct'')"
proof -
  let ?c = "demo_config 3" and ?q = "''2+2=? A) 3 B) 4''"
  let ?a = "\<lparr>Source = ''Gemini'', Content = ''B is correct''\<rparr>"
  let ?b = "\<lparr>Source = ''Groq'', Content = ''B) 4 is correct''\<rparr>"
  have budget0: "int 0 < MaxRetries ?c" and budget: "int (Suc 0) < MaxRetries ?c"
    by (simp_all add: demo_config_def)
  have r: "reaches ?c ?q agree_on_second (Suc 0)
     ([] @ fst (attempt_step ?c ?q 0 (agree_on_second 0) nil_vars))
     \<lparr>geminiResp = Some \<lparr>Source = ''Gemini'', Content = ''A is correct''\<rparr>,
      groqResp = Some \<lparr>Source = ''Groq'', Content = ''B) 4 is correct''\<rparr>,
      lastGeminiErr = None, lastGroqErr = None\<rparr>"
    using reaches_start budget0 demo_first_attempt by (rule reaches_next)
  have a: "snd (getGeminiResponse (gemini (agree_on_second (Suc 0))) ?q (GeminiKey ?c)) =
      Return (Inr ?a)"
    by code_simp
  have b: "snd (getGroqResponse (groq (agree_on_second (Suc 0))) ?q (GroqKey ?c)) = Inr ?b"
    by code_simp
  have j: "snd (compareResponses (judge (agree_on_second (Suc 0))) (Content ?a) (Content ?b)
      (GeminiKey ?c)) = Return (Inr True)"
    by code_simp
  from agreement_returns_gemini_content[where env = agree_on_second and k = "Suc 0", OF r budget a b j]
    r budget a b j
  show ?thesis
    by simp
qed

text \<open>
  Claim C2, as stated, fails: the output after exhaustion can show data of an earlier
  attempt.  Two runs of two attempts whose second attempts are the same (Backend A fails,
  Backend B is not called) end with different errors, because the error that Backend B
  returned on the first attempt is still in \<^verbatim>\<open>lastGroqErr\<close>.
\<close>

theorem earlier_attempt_in_exhausted_output:
  "groq_fails_first ''refused'' (Suc 0) = groq_fails_first ''reset'' (Suc 0)
   \<and> snd (processQuestion (demo_config 2) ''2+2=?'' (groq_fails_first ''refused'')) =
       Return (Inl (''failed to get responses after 2 attempts. '' @
                    ''Gemini error: failed to generate Gemini response: timeout, '' @
                    ''Groq error: failed to send request: refused''))
   \<and> snd (processQuestion (demo_config 2) ''2+2=?'' (groq_fails_first ''reset'')) =
       Return (Inl (''failed to get responses after 2 attempts. '' @
                    ''Gemini error: failed to generate Gemini response: timeout, '' @
                    ''Groq error: failed to send request: reset''))"
  by code_simp

text \<open>
  Claim C2, amended.  If no attempt panics or ends with the verdict true, the trace of
  \<^verbatim>\<open>processQuestion\<close> is the traces of the attempts \<open>0\<close> to \<open>MaxRetries - 1\<close> in order,
  so exactly \<open>MaxRetries\<close> attempts are executed; and when Backend A answered on the last
  attempt, the output is the side-by-side text made of that attempt's answers only:
  Backend A's, formatted, and Backend B's, formatted, or \<^verbatim>\<open>Error getting response\<close> when
  Backend B failed on it.
\<close>

theorem exhausted_output_from_last_attempt:
  assumes "0 < MaxRetries config"
    and "\<forall>j. int j < MaxRetries config \<longrightarrow> no_agreement config question (env j)"
  shows "fst (processQuestion config question env) =
           concat (map (\<lambda>j. fst (attempt_step config question j (env j) nil_vars))
                       [0..<nat (MaxRetries config)])
         \<and> (\<forall>a. gemini_answer config question (env (nat (MaxRetries config) - 1)) = Some a \<longrightarrow>
              snd (processQuestion config question env) =
                Return (Inr (''Responses after '' @ fmt_d (MaxRetries config) @
                   '' attempts:\<newline>\<newline>Gemini Response:\<newline>'' @ formatResponse (Content a) @
                   ''\<newline>\<newline>Groq Response:\<newline>'' @
                   (case groq_answer config question (env (nat (MaxRetries config) - 1)) of
                      None \<Rightarrow> ''Error getting response''
                    | Some b \<Rightarrow> formatResponse (Content b)))))"
proof -
  from assms(2) obtain evs v
    where r: "reaches config question env (nat (MaxRetries config)) evs v"
      and p: "processQuestion config question env = (evs, Return (exhausted config v))"
    by (rule runs_every_attempt)
  from assms(1) have last: "nat (MaxRetries config) = Suc (nat (MaxRetries config) - 1)"
    by simp
  note vars = reaches_last_attempt[OF r last]
  have "fst (processQuestion config question env) =
           concat (map (\<lambda>j. fst (attempt_step config question j (env j) nil_vars))
                       [0..<nat (MaxRetries config)])"
    using reaches_events[OF r] p by simp
  moreover have "snd (processQuestion config question env) =
        Return (Inr (''Responses after '' @ fmt_d (MaxRetries config) @
           '' attempts:\<newline>\<newline>Gemini Response:\<newline>'' @ formatResponse (Content a) @
           ''\<newline>\<newline>Groq Response:\<newline>'' @
           (case groq_answer config question (env (nat (MaxRetries config) - 1)) of
              None \<Rightarrow> ''Error getting response''
            | Some b \<Rightarrow> formatResponse (Content b))))"
    if a: "gemini_answer config question (env (nat (MaxRetries config) - 1)) = Some a" for a
  proof -
    from vars a have "geminiResp v = Some a"
      and "groqResp v = groq_answer config question (env (nat (MaxRetries config) - 1))"
      by simp_all
    then show ?thesis using p by (simp add: exhausted_answers)
  qed
  ultimately show ?thesis by blast
qed

theorem exhausted_output_from_last_attempt_witness:
  "0 < MaxRetries (demo_config 2)
   \<and> no_agreement (demo_config 2) ''Which option?'' (differ 0)
   \<and> no_agreement (demo_config 2) ''Which option?'' (differ (Suc 0))
   \<and> fst (processQuestion (demo_config 2) ''Which option?'' differ) =
       fst (attempt_step (demo_config 2) ''Which option?'' 0 (differ 0) nil_vars) @
       fst (attempt_step (demo_config 2) ''Which option?'' (Suc 0) (differ (Suc 0)) nil_vars)
   \<and> snd (processQuestion (demo_config 2) ''Which option?'' differ) =
       Return (Inr (''Responses after 2 attempts:\<newline>\<newline>'' @
                    ''Gemini Response:\<newline>\<newline>Option B. \<newline>\<newline>Summary: B\<newline>\<newline>'' @
                    ''Groq Response:\<newline>\<newline>Option C. \<newline>\<newline>Summary: C''))"
proof -
  let ?c = "demo_config 2" and ?q = "''Which option?''"
  have n0: "no_agreement ?c ?q (differ 0)" by code_simp
  have n1: "no_agreement ?c ?q (differ (Suc 0))" by code_simp
  from n0 n1 have all: "\<forall>j. int j < MaxRetries ?c \<longrightarrow> no_agreement ?c ?q (differ j)"
    by (auto simp only: demo_budget)
  have a: "gemini_answer ?c ?q (differ (Suc 0)) =
      Some \<lparr>Source = ''Gemini'', Content = ''Option B. Summary: B''\<rparr>"
    by code_simp
  have b: "groq_answer ?c ?q (differ (Suc 0)) =
      Some \<lparr>Source = ''Groq'', Content = ''Option C. Summary: C''\<rparr>"
    by code_simp
  have fa: "formatResponse ''Option B. Summary: B'' = ''\<newline>Option B. \<newline>\<newline>Summary: B''"
    by code_simp
  have fb: "formatResponse ''Option C. Summary: C'' = ''\<newline>Option C. \<newline>\<newline>Summary: C''"
    by code_simp
  have upt: "[0..<2] = [0, Suc 0]"
    by (simp add: upt_rec)
  from exhausted_output_from_last_attempt[OF demo_budget(2) all] a b fa fb upt n0 n1
  show ?thesis
    by (simp add: demo_budget demo_fmt_d)
qed

text \<open>
  Claim C3, as stated, fails: when Backend B fails on the only attempt and Backend A
  has answered on it, \<^verbatim>\<open>processQuestion\<close> returns no error but the side-by-side text,
  with \<^verbatim>\<open>Error getting response\<close> in place of Backend B's answer.
\<close>

theorem groq_failure_on_last_attempt_is_no_error:
  "snd (getGroqResponse (groq (groq_fails_first ''refused'' 0)) ''2+2=?'' (GroqKey (demo_config 1))) =
     Inl ''failed to send request: refused''
   \<and> snd (processQuestion (demo_config 1) ''2+2=?'' (groq_fails_first ''refused'')) =
       Return (Inr (''Responses after 1 attempts:\<newline>\<newline>Gemini Response:\<newline>4\<newline>\<newline>'' @
                    ''Groq Response:\<newline>Error getting response''))"
  by code_simp

text \<open>
  Claim C3, amended.  Suppose that on every attempt one of the backends fails (Backend A,
  or Backend B where it is reached).  If Backend A failed on the last attempt, or there
  was no attempt, the result is the error that embeds the last recorded error of each
  backend (\<^verbatim>\<open><nil>\<close> for a backend that recorded none).  If Backend A answered on the last
  attempt, the result is the side-by-side text with Backend A's formatted answer and
  \<^verbatim>\<open>Error getting response\<close> for Backend B.
\<close>

theorem backend_failures_exhaust:
  assumes "\<forall>j. int j < MaxRetries config \<longrightarrow>
             gemini_error config question (env j) \<noteq> None \<or> groq_error config question (env j) \<noteq> None"
  shows "snd (processQuestion config question env) =
     Return
       (case (if 0 < MaxRetries config
              then gemini_answer config question (env (nat (MaxRetries config) - 1)) else None) of
          None \<Rightarrow>
            Inl (''failed to get responses after '' @ fmt_d (MaxRetries config) @
                 '' attempts. Gemini error: '' @
                 fmt_v (last_recorded (\<lambda>j. gemini_error config question (env j))
                          (nat (MaxRetries config))) @
                 '', Groq error: '' @
                 fmt_v (last_recorded (\<lambda>j. groq_error config question (env j))
                          (nat (MaxRetries config))))
        | Some a \<Rightarrow>
            Inr (''Responses after '' @ fmt_d (MaxRetries config) @
                 '' attempts:\<newline>\<newline>Gemini Response:\<newline>'' @ formatResponse (Content a) @
                 ''\<newline>\<newline>Groq Response:\<newline>Error getting response''))"
proof -
  from assms have cont: "\<forall>j. int j < MaxRetries config \<longrightarrow> no_agreement config question (env j)"
    using failure_no_agreement(1) by blast
  from assms have nogroq: "\<forall>j<nat (MaxRetries config). groq_answer config question (env j) = None"
    using failure_no_agreement(2) by simp
  from cont obtain evs v
    where r: "reaches config question env (nat (MaxRetries config)) evs v"
      and p: "processQuestion config question env = (evs, Return (exhausted config v))"
    by (rule runs_every_attempt)
  have groq: "groqResp v = None"
    using reaches_no_groq_answer[OF r nogroq] .
  note errs = reaches_errors[OF r]
  show ?thesis
  proof (cases "0 < MaxRetries config")
    case False
    with r have "reaches config question env 0 evs v" by simp
    then have "v = nil_vars" by (cases rule: reaches.cases) simp_all
    then have "geminiResp v = None" by (simp add: nil_vars_def)
    with groq errs False p show ?thesis by (simp add: exhausted_error)
  next
    case True
    then have last: "nat (MaxRetries config) = Suc (nat (MaxRetries config) - 1)"
      by simp
    from reaches_last_attempt[OF r last]
    have g: "geminiResp v = gemini_answer config question (env (nat (MaxRetries config) - 1))"
      by simp
    show ?thesis
    proof (cases "gemini_answer config question (env (nat (MaxRetries config) - 1))")
      case None
      with g groq errs True p show ?thesis by (simp add: exhausted_error)
    next
      case (Some a)
      with g groq True p show ?thesis by (simp add: exhausted_answers)
    qed
  qed
qed

theorem backend_failures_exhaust_witness:
  "gemini_error (demo_config 2) ''2+2=?'' (groq_fails_first ''refused'' 0) = None
   \<and> groq_error (demo_config 2) ''2+2=?'' (groq_fails_first ''refused'' 0) =
         Some ''failed to send request: refused''
   \<and> gemini_error (demo_config 2) ''2+2=?'' (groq_fails_first ''refused'' (Suc 0)) =
         Some ''failed to generate Gemini response: timeout''
   \<and> snd (processQuestion (demo_config 2) ''2+2=?'' (groq_fails_first ''refused'')) =
       Return (Inl (''failed to get responses after 2 attempts. '' @
                    ''Gemini error: failed to generate Gemini response: timeout, '' @
                    ''Groq error: failed to send request: refused''))"
proof -
  let ?c = "demo_config 2" and ?q = "''2+2=?''" and ?env = "groq_fails_first ''refused''"
  have g0: "gemini_error ?c ?q (?env 0) = None" by code_simp
  have q0: "groq_error ?c ?q (?env 0) = Some ''failed to send request: refused''" by code_simp
  have g1: "gemini_error ?c ?q (?env (Suc 0)) = Some ''failed to generate Gemini response: timeout''"
    by code_simp
  have q1: "groq_error ?c ?q (?env (Suc 0)) = None" by code_simp
  have a1: "gemini_answer ?c ?q (?env (Suc 0)) = None" by code_simp
  from q0 g1 have all: "\<forall>j. int j < MaxRetries ?c \<longrightarrow>
      gemini_error ?c ?q (?env j) \<noteq> None \<or> groq_error ?c ?q (?env j) \<noteq> None"
    by (auto simp only: demo_budget)
  from backend_failures_exhaust[OF all] g0 q0 g1 q1 a1 show ?thesis
    by (simp add: demo_budget demo_fmt_d numeral_2_eq_2 fmt_v_def)
qed

text \<open>
  Claim C4.  When its generation call succeeds, the judge should return true or false
  and never fail.  It does so when the reply carries a text part, by the rule of the
  claim.  On a reply without candidates, with a candidate without content or without
  parts, or with a first part that is not text, \<^verbatim>\<open>compareResponses\<close> panics at the
  unchecked index of line 308 instead of returning false.
\<close>

theorem compareResponses_panics:
  "snd (compareResponses (Generated []) resp1 resp2 geminiKey) = Panic IndexOutOfRange
   \<and> snd (compareResponses (Generated (None # candidates)) resp1 resp2 geminiKey) =
        Panic NilDereference
   \<and> snd (compareResponses (Generated (Some [] # candidates)) resp1 resp2 geminiKey) =
        Panic IndexOutOfRange
   \<and> snd (compareResponses (Generated (Some (Blob # parts) # candidates)) resp1 resp2 geminiKey) =
        Panic InterfaceConversion
   \<and> snd (compareResponses (Generated (Some (Text t # parts) # candidates)) resp1 resp2 geminiKey) =
        Return (Inr (ToLower (TrimSpace t) = ''true''))"
  by (simp add: compareResponses_def first_text_def)

text \<open>
  Claim C5.  If Backend A's call fails on attempt \<open>k\<close>, the attempt sends nothing but
  Backend A's request, logs the error, sets \<^verbatim>\<open>geminiResp\<close> to \<^verbatim>\<open>nil\<close> and
  \<^verbatim>\<open>lastGeminiErr\<close> to the error, and the loop goes on with attempt \<open>k + 1\<close> under the
  same bound: Backend B and the judge are not called on attempt \<open>k\<close>.  If Backend A fails
  on every attempt, the trace holds Backend A's requests and the log lines only, and the
  result is the error with Backend A's last error and \<^verbatim>\<open><nil>\<close> for Backend B.
\<close>

theorem gemini_failure_skips_groq_and_judge:
  "(int k < MaxRetries config \<and>
    snd (getGeminiResponse (gemini (env k)) question (GeminiKey config)) = Return (Inl err) \<longrightarrow>
      retry_loop config question env k v =
        (fst (getGeminiResponse (gemini (env k)) question (GeminiKey config)) @
           [LogPrintf (''Attempt '' @ fmt_d (int k + 1) @ '': Gemini API error: '' @ err)] @
           fst (retry_loop config question env (Suc k)
                  (v\<lparr>geminiResp := None, lastGeminiErr := Some err\<rparr>)),
         snd (retry_loop config question env (Suc k)
                (v\<lparr>geminiResp := None, lastGeminiErr := Some err\<rparr>))))
   \<and> (0 < MaxRetries config \<and>
      (\<forall>j. int j < MaxRetries config \<longrightarrow>
           snd (getGeminiResponse (gemini (env j)) question (GeminiKey config)) =
             Return (Inl (errs j))) \<longrightarrow>
        processQuestion config question env =
          (concat (map (\<lambda>j. fst (getGeminiResponse (gemini (env j)) question (GeminiKey config)) @
                            [LogPrintf (''Attempt '' @ fmt_d (int j + 1) @
                                        '': Gemini API error: '' @ errs j)])
                       [0..<nat (MaxRetries config)]),
           Return (Inl (''failed to get responses after '' @ fmt_d (MaxRetries config) @
                        '' attempts. Gemini error: '' @ errs (nat (MaxRetries config) - 1) @
                        '', Groq error: <nil>''))))"
proof (intro conjI impI)
  assume "int k < MaxRetries config \<and>
    snd (getGeminiResponse (gemini (env k)) question (GeminiKey config)) = Return (Inl err)"
  then have budget: "int k < MaxRetries config"
    and "snd (getGeminiResponse (gemini (env k)) question (GeminiKey config)) = Return (Inl err)"
    by simp_all
  from this(2) have "attempt_step config question k (env k) v =
      (fst (getGeminiResponse (gemini (env k)) question (GeminiKey config)) @
         [LogPrintf (''Attempt '' @ fmt_d (int k + 1) @ '': Gemini API error: '' @ err)],
       Next (v\<lparr>geminiResp := None, lastGeminiErr := Some err\<rparr>))"
    by (rule step_gemini_error)
  with budget show "retry_loop config question env k v =
        (fst (getGeminiResponse (gemini (env k)) question (GeminiKey config)) @
           [LogPrintf (''Attempt '' @ fmt_d (int k + 1) @ '': Gemini API error: '' @ err)] @
           fst (retry_loop config question env (Suc k)
                  (v\<lparr>geminiResp := None, lastGeminiErr := Some err\<rparr>)),
         snd (retry_loop config question env (Suc k)
                (v\<lparr>geminiResp := None, lastGeminiErr := Some err\<rparr>)))"
    by (simp add: retry_loop_next)
next
  let ?n = "nat (MaxRetries config)"
  assume "0 < MaxRetries config \<and>
      (\<forall>j. int j < MaxRetries config \<longrightarrow>
           snd (getGeminiResponse (gemini (env j)) question (GeminiKey config)) =
             Return (Inl (errs j)))"
  then have pos: "0 < MaxRetries config"
    and fails: "\<forall>j<?n. snd (getGeminiResponse (gemini (env j)) question (GeminiKey config)) =
                   Return (Inl (errs j))"
    by simp_all
  have "?n = 0 \<or> int ?n \<le> MaxRetries config" by simp
  with fails have "reaches config question env ?n
     (concat (map (\<lambda>j. fst (getGeminiResponse (gemini (env j)) question (GeminiKey config)) @
                       [LogPrintf (''Attempt '' @ fmt_d (int j + 1) @
                                   '': Gemini API error: '' @ errs j)]) [0..<?n]))
     (if ?n = 0 then nil_vars
      else nil_vars\<lparr>geminiResp := None, lastGeminiErr := Some (errs (?n - 1))\<rparr>)"
    by (rule gemini_failures_reach)
  moreover have "\<not> int ?n < MaxRetries config" by simp
  ultimately have "processQuestion config question env =
     (concat (map (\<lambda>j. fst (getGeminiResponse (gemini (env j)) question (GeminiKey config)) @
                       [LogPrintf (''Attempt '' @ fmt_d (int j + 1) @
                                   '': Gemini API error: '' @ errs j)]) [0..<?n]),
      Return (exhausted config
        (if ?n = 0 then nil_vars
         else nil_vars\<lparr>geminiResp := None, lastGeminiErr := Some (errs (?n - 1))\<rparr>)))"
    by (rule reaches_exhausted)
  with pos show "processQuestion config question env =
          (concat (map (\<lambda>j. fst (getGeminiResponse (gemini (env j)) question (GeminiKey config)) @
                            [LogPrintf (''Attempt '' @ fmt_d (int j + 1) @
                                        '': Gemini API error: '' @ errs j)])
                       [0..<nat (MaxRetries config)]),
           Return (Inl (''failed to get responses after '' @ fmt_d (MaxRetries config) @
                        '' attempts. Gemini error: '' @ errs (nat (MaxRetries config) - 1) @
                        '', Groq error: <nil>'')))"
    by (simp add: exhausted_error nil_vars_def fmt_v_def)
qed

theorem gemini_failure_skips_groq_and_judge_witness:
  "0 < MaxRetries (demo_config 2)
   \<and> snd (getGeminiResponse (gemini (gemini_always_fails 0)) ''2+2=?'' (GeminiKey (demo_config 2))) =
       Return (Inl ''failed to generate Gemini response: timeout'')
   \<and> processQuestion (demo_config 2) ''2+2=?'' gemini_always_fails =
       ([GenerateContent ''gemini-key'' ''gemini-pro'' (getGeminiResponse_enhancedPrompt ''2+2=?''),
         LogPrintf ''Attempt 1: Gemini API error: failed to generate Gemini response: timeout'',
         GenerateContent ''gemini-key'' ''gemini-pro'' (getGeminiResponse_enhancedPrompt ''2+2=?''),
         LogPrintf ''Attempt 2: Gemini API error: failed to generate Gemini response: timeout''],
        Return (Inl (''failed to get responses after 2 attempts. '' @
                     ''Gemini error: failed to generate Gemini response: timeout, '' @
                     ''Groq error: <nil>'')))"
proof -
  let ?c = "demo_config 2" and ?q = "''2+2=?''"
  have fails: "getGeminiResponse (gemini (gemini_always_fails j)) ?q (GeminiKey ?c) =
      ([GenerateContent ''gemini-key'' ''gemini-pro'' (getGeminiResponse_enhancedPrompt ''2+2=?'')],
       Return (Inl ''failed to generate Gemini response: timeout''))" for j
    by (simp add: gemini_always_fails_def getGeminiResponse_def demo_config_def)
  then have all: "0 < MaxRetries ?c \<and>
      (\<forall>j. int j < MaxRetries ?c \<longrightarrow>
        snd (getGeminiResponse (gemini (gemini_always_fails j)) ?q (GeminiKey ?c)) =
          Return (Inl ((\<lambda>j. ''failed to generate Gemini response: timeout'') j)))"
    by (simp add: demo_budget)
  have upt: "[0..<2] = [0, Suc 0]"
    by (simp add: upt_rec)
  note d = demo_fmt_d
  from gemini_failure_skips_groq_and_judge[where config = ?c and question = ?q
      and env = gemini_always_fails and errs = "\<lambda>j. ''failed to generate Gemini response: timeout''"]
    all
  have "processQuestion ?c ?q gemini_always_fails =
          (concat (map (\<lambda>j. fst (getGeminiResponse (gemini (gemini_always_fails j)) ?q (GeminiKey ?c)) @
                            [LogPrintf (''Attempt '' @ fmt_d (int j + 1) @
                                        '': Gemini API error: '' @ ''failed to generate Gemini response: timeout'')])
                       [0..<nat (MaxRetries ?c)]),
           Return (Inl (''failed to get responses after '' @ fmt_d (MaxRetries ?c) @
                        '' attempts. Gemini error: '' @ ''failed to generate Gemini response: timeout'' @
                        '', Groq error: <nil>'')))"
    by blast
  with fails upt d show ?thesis
    by (simp add: demo_budget)
qed

text \<open>
  Claim C6.  The enhanced prompt is a fixed template followed by the question: the
  question is a suffix, hence a substring, of the prompt, and the template of
  \<^verbatim>\<open>getGeminiResponse\<close> is the template of \<^verbatim>\<open>getGroqResponse\<close>.
\<close>

theorem prompt_contains_question:
  "getGeminiResponse_enhancedPrompt question = getGroqResponse_enhancedPrompt question
   \<and> suffix question (getGeminiResponse_enhancedPrompt question)
   \<and> sublist question (getGeminiResponse_enhancedPrompt question)
   \<and> sublist question (getGroqResponse_enhancedPrompt question)
   \<and> (\<exists>template. \<forall>q. getGeminiResponse_enhancedPrompt q = template @ q
                      \<and> getGroqResponse_enhancedPrompt q = template @ q)"
proof -
  have eq: "getGeminiResponse_enhancedPrompt q = getGroqResponse_enhancedPrompt q" for q
    by (simp add: getGeminiResponse_enhancedPrompt_def getGroqResponse_enhancedPrompt_def)
  have "\<exists>template. \<forall>q. getGeminiResponse_enhancedPrompt q = template @ q"
    unfolding getGeminiResponse_enhancedPrompt_def append_assoc[symmetric]
    by (rule exI) (rule allI, rule refl)
  then obtain template where t: "getGeminiResponse_enhancedPrompt q = template @ q" for q
    by blast
  have suf: "suffix question (getGeminiResponse_enhancedPrompt question)"
    by (simp add: t suffix_def)
  then have sub: "sublist question (getGeminiResponse_enhancedPrompt question)"
    by (rule suffix_imp_sublist)
  have "\<forall>q. getGeminiResponse_enhancedPrompt q = template @ q
            \<and> getGroqResponse_enhancedPrompt q = template @ q"
    using t eq by simp
  then have ex: "\<exists>template. \<forall>q. getGeminiResponse_enhancedPrompt q = template @ q
                      \<and> getGroqResponse_enhancedPrompt q = template @ q" ..
  from sub have "sublist question (getGroqResponse_enhancedPrompt question)"
    by (simp only: eq)
  with eq suf sub ex show ?thesis by (intro conjI)
qed

text \<open>
  Claim C7.  \<^verbatim>\<open>getGeminiResponse\<close> should return an error when the reply has no usable
  content.  It panics instead: on a reply without candidates, with a candidate without
  content or without parts, and with a first part that is not text.  The sibling
  \<^verbatim>\<open>getGroqResponse\<close> checks for an empty list of choices and returns an error.
\<close>

theorem getGeminiResponse_panics:
  "snd (getGeminiResponse (Generated []) question apiKey) = Panic IndexOutOfRange
   \<and> snd (getGeminiResponse (Generated (None # candidates)) question apiKey) = Panic NilDereference
   \<and> snd (getGeminiResponse (Generated (Some [] # candidates)) question apiKey) =
        Panic IndexOutOfRange
   \<and> snd (getGeminiResponse (Generated (Some (Blob # parts) # candidates)) question apiKey) =
        Panic InterfaceConversion
   \<and> snd (getGroqResponse (Replied 200 (Decoded [])) question apiKey) =
        Inl ''no response choices returned''"
  by (simp add: getGeminiResponse_def getGroqResponse_def first_text_def)

text \<open>
  Claim C8.  No runtime error should end the process.  One does: when both backends have
  answered and the judge's reply has no candidate, \<^verbatim>\<open>compareResponses\<close> panics at the
  unchecked index of line 308, and the turn of \<^verbatim>\<open>main\<close> ends in that panic instead of
  going on to the next question.
\<close>

theorem main_turn_crashes_on_empty_judge_reply:
  "snd (main_turn (demo_config 3) judge_reply_empty ''What is 2+2?\<newline>'') = Panic IndexOutOfRange
   \<and> snd (compareResponses (Generated []) ''4'' ''4'' ''gemini-key'') = Panic IndexOutOfRange"
  by code_simp

text \<open>
  Claim C9.  With a maximum retry count of zero or less, \<^verbatim>\<open>processQuestion\<close> calls
  nothing and logs nothing, and returns the error that reports that many attempts and
  \<^verbatim>\<open><nil>\<close> as the last error of each backend.
\<close>

theorem no_attempts_without_budget:
  assumes "MaxRetries config \<le> 0"
  shows "processQuestion config question env =
     ([], Return (Inl (''failed to get responses after '' @ fmt_d (MaxRetries config) @
                       '' attempts. Gemini error: <nil>, Groq error: <nil>'')))"
  using assms by (simp add: processQuestion_def retry_loop_exit exhausted_def fmt_v_def nil_vars_def)

theorem no_attempts_without_budget_witness:
  "MaxRetries (demo_config (- 2)) \<le> 0
   \<and> processQuestion (demo_config (- 2)) ''2+2=? A) 3 B) 4'' agree_on_second =
       ([], Return (Inl (''failed to get responses after -2 attempts. '' @
                         ''Gemini error: <nil>, Groq error: <nil>'')))"
proof -
  have budget: "MaxRetries (demo_config (- 2)) \<le> 0"
    by (simp add: demo_config_def)
  have "fmt_d (MaxRetries (demo_config (- 2))) = ''-2''"
    by code_simp
  with no_attempts_without_budget[OF budget, of "''2+2=? A) 3 B) 4''" agree_on_second] budget
  show ?thesis by simp
qed

text \<open>
  Claim C10.  \<^verbatim>\<open>formatResponse\<close> puts a newline before every occurrence of
  \<^verbatim>\<open>Option\<close> and two newlines before every occurrence of \<^verbatim>\<open>Summary\<close>, and changes
  nothing else.  A text returned by \<^verbatim>\<open>processQuestion\<close> is either the text part that
  Backend A's service returned on an attempt that ended in agreement, unchanged; or no
  attempt ended in agreement, and the text is the side-by-side text of the responses that
  \<^verbatim>\<open>geminiResp\<close> and \<^verbatim>\<open>groqResp\<close> hold when every attempt has been made, Backend A's
  first and Backend B's second, each with exactly these breaks inserted (or the words
  \<^verbatim>\<open>Error getting response\<close> for a variable that is \<^verbatim>\<open>nil\<close>).
\<close>

theorem formatting_only_when_exhausted:
  assumes "snd (processQuestion config question env) = Return (Inr out)"
  shows "formatResponse response = spec_insert_breaks response
   \<and> ((\<exists>k b parts candidates.
          int k < MaxRetries config \<and>
          gemini (env k) = Generated (Some (Text out # parts) # candidates) \<and>
          groq_answer config question (env k) = Some b \<and>
          snd (compareResponses (judge (env k)) out (Content b) (GeminiKey config)) =
            Return (Inr True))
       \<or> ((\<forall>j. int j < MaxRetries config \<longrightarrow> no_agreement config question (env j)) \<and>
          (\<exists>evs v.
             reaches config question env (nat (MaxRetries config)) evs v \<and>
             geminiResp v = gemini_held config question env (nat (MaxRetries config)) \<and>
             groqResp v = groq_held config question env (nat (MaxRetries config)) \<and>
             out = ''Responses after '' @ fmt_d (MaxRetries config) @
                   '' attempts:\<newline>\<newline>Gemini Response:\<newline>'' @
                   (case geminiResp v of
                      None \<Rightarrow> ''Error getting response''
                    | Some a \<Rightarrow> spec_insert_breaks (Content a)) @
                   ''\<newline>\<newline>Groq Response:\<newline>'' @
                   (case groqResp v of
                      None \<Rightarrow> ''Error getting response''
                    | Some b \<Rightarrow> spec_insert_breaks (Content b)))))"
proof -
  from assms
  consider (agreed) k a b where "int k < MaxRetries config"
      "gemini_answer config question (env k) = Some a"
      "groq_answer config question (env k) = Some b"
      "snd (compareResponses (judge (env k)) (Content a) (Content b) (GeminiKey config)) =
         Return (Inr True)"
      "out = Content a"
    | (exhausted) evs v where "reaches config question env (nat (MaxRetries config)) evs v"
      "exhausted config v = Inr out"
    unfolding processQuestion_def using retry_loop_tied[OF _ reaches_start] by blast
  then have "(\<exists>k b parts candidates.
          int k < MaxRetries config \<and>
          gemini (env k) = Generated (Some (Text out # parts) # candidates) \<and>
          groq_answer config question (env k) = Some b \<and>
          snd (compareResponses (judge (env k)) out (Content b) (GeminiKey config)) =
            Return (Inr True))
       \<or> ((\<forall>j. int j < MaxRetries config \<longrightarrow> no_agreement config question (env j)) \<and>
          (\<exists>evs v.
             reaches config question env (nat (MaxRetries config)) evs v \<and>
             geminiResp v = gemini_held config question env (nat (MaxRetries config)) \<and>
             groqResp v = groq_held config question env (nat (MaxRetries config)) \<and>
             out = ''Responses after '' @ fmt_d (MaxRetries config) @
                   '' attempts:\<newline>\<newline>Gemini Response:\<newline>'' @
                   (case geminiResp v of
                      None \<Rightarrow> ''Error getting response''
                    | Some a \<Rightarrow> spec_insert_breaks (Content a)) @
                   ''\<newline>\<newline>Groq Response:\<newline>'' @
                   (case groqResp v of
                      None \<Rightarrow> ''Error getting response''
                    | Some b \<Rightarrow> spec_insert_breaks (Content b))))"
  proof cases
    case agreed
    from gemini_answer_text[OF agreed(2)] agreed show ?thesis by blast
  next
    case exhausted
    from exhausted(2) have out: "out = ''Responses after '' @ fmt_d (MaxRetries config) @
                   '' attempts:\<newline>\<newline>Gemini Response:\<newline>'' @
                   (case geminiResp v of
                      None \<Rightarrow> ''Error getting response''
                    | Some a \<Rightarrow> spec_insert_breaks (Content a)) @
                   ''\<newline>\<newline>Groq Response:\<newline>'' @
                   (case groqResp v of
                      None \<Rightarrow> ''Error getting response''
                    | Some b \<Rightarrow> spec_insert_breaks (Content b))"
      by (auto simp: exhausted_def formatResponse_spec split: if_splits option.splits)
    from reaches_no_agreement[OF exhausted(1)]
    have "\<forall>j. int j < MaxRetries config \<longrightarrow> no_agreement config question (env j)"
      by simp
    with exhausted(1) reaches_held[OF exhausted(1)] out show ?thesis by blast
  qed
  then show ?thesis by (simp only: formatResponse_spec simp_thms)
qed

theorem formatting_only_when_exhausted_witness:
  "snd (processQuestion (demo_config 2) ''Which option?'' differ) =
       Return (Inr (''Responses after 2 attempts:\<newline>\<newline>'' @
                    ''Gemini Response:\<newline>\<newline>Option B. \<newline>\<newline>Summary: B\<newline>\<newline>'' @
                    ''Groq Response:\<newline>\<newline>Option C. \<newline>\<newline>Summary: C''))
   \<and> gemini_held (demo_config 2) ''Which option?'' differ (nat (MaxRetries (demo_config 2))) =
       Some \<lparr>Source = ''Gemini'', Content = ''Option B. Summary: B''\<rparr>
   \<and> groq_held (demo_config 2) ''Which option?'' differ (nat (MaxRetries (demo_config 2))) =
       Some \<lparr>Source = ''Groq'', Content = ''Option C. Summary: C''\<rparr>
   \<and> formatResponse ''Option B. Summary: B'' = spec_insert_breaks ''Option B. Summary: B''
   \<and> spec_insert_breaks ''Option B. Summary: B'' = ''\<newline>Option B. \<newline>\<newline>Summary: B''
   \<and> spec_insert_breaks ''Option C. Summary: C'' = ''\<newline>Option C. \<newline>\<newline>Summary: C''"
proof -
  have out: "snd (processQuestion (demo_config 2) ''Which option?'' differ) =
       Return (Inr (''Responses after 2 attempts:\<newline>\<newline>'' @
                    ''Gemini Response:\<newline>\<newline>Option B. \<newline>\<newline>Summary: B\<newline>\<newline>'' @
                    ''Groq Response:\<newline>\<newline>Option C. \<newline>\<newline>Summary: C''))"
    by code_simp
  have a: "gemini_held (demo_config 2) ''Which option?'' differ (nat (MaxRetries (demo_config 2))) =
       Some \<lparr>Source = ''Gemini'', Content = ''Option B. Summary: B''\<rparr>"
    by code_simp
  have b: "groq_held (demo_config 2) ''Which option?'' differ (nat (MaxRetries (demo_config 2))) =
       Some \<lparr>Source = ''Groq'', Content = ''Option C. Summary: C''\<rparr>"
    by code_simp
  have fa: "spec_insert_breaks ''Option B. Summary: B'' = ''\<newline>Option B. \<newline>\<newline>Summary: B''"
    by code_simp
  have fb: "spec_insert_breaks ''Option C. Summary: C'' = ''\<newline>Option C. \<newline>\<newline>Summary: C''"
    by code_simp
  from formatting_only_when_exhausted[OF out, of "''Option B. Summary: B''"] out a b fa fb
  show ?thesis by simp
qed

end
